theory Spec2Isabelle
  imports Complex_Main
begin

section \<open>Shared vocabulary\<close>

text \<open>
  Python floats are modelled as exact reals, timestamps as reals counted in seconds.
  A Python value that may be \<open>None\<close> is an \<open>option\<close>, with HOL's \<open>None\<close> for
  Python's. Exceptions are values of \<open>py_error\<close>, carried in the left summand of a sum.
\<close>

datatype py_error = ZeroDivisionError | IndexError | KeyError | ValueError | GeometryError

type_synonym point = "real \<times> real"

type_synonym bbox = "real \<times> real \<times> real \<times> real"

section \<open>utils/cache.py\<close>

record 'v cache_entry =
  entry_value :: "'v option"
  expires_at :: real
  created_at :: real

type_synonym 'v cache = "string \<rightharpoonup> 'v cache_entry"

text \<open>\<open>get_cached\<close>: the clock reading \<open>now\<close> is the one taken inside the function; an expired
  entry is deleted and the call answers \<open>None\<close>.\<close>

definition get_cached :: "'v cache \<Rightarrow> real \<Rightarrow> string \<Rightarrow> 'v option \<times> 'v cache" where
  "get_cached c now key =
     (case c key of
        Some entry \<Rightarrow>
          if now < expires_at entry then (entry_value entry, c)
          else (None, c(key := None))
      | None \<Rightarrow> (None, c))"

text \<open>\<open>set_cached\<close> reads the clock twice, once for each timestamp it stores.\<close>

definition set_cached ::
  "'v cache \<Rightarrow> real \<Rightarrow> real \<Rightarrow> string \<Rightarrow> 'v option \<Rightarrow> real \<Rightarrow> 'v cache" where
  "set_cached c now1 now2 key v ttl =
     c(key \<mapsto> \<lparr>entry_value = v, expires_at = now1 + ttl, created_at = now2\<rparr>)"

text \<open>The wrapper built by the \<open>cached\<close> decorator. \<open>keyfn\<close> stands for
  \<open>generate_cache_key\<close> applied to the prefix, the function name and the arguments (a SHA-256
  digest, kept abstract); \<open>func\<close> is the wrapped function. The state carries the cache and a
  counter of how often \<open>func\<close> was executed. The three clock readings are the one of
  \<open>get_cached\<close> and the two of \<open>set_cached\<close>.\<close>

record 'v memo_state =
  memo_cache :: "'v cache"
  executions :: nat

definition cached ::
  "real \<Rightarrow> ('a \<Rightarrow> string) \<Rightarrow> ('a \<Rightarrow> 'v option) \<Rightarrow> 'v memo_state \<Rightarrow> real \<times> real \<times> real \<Rightarrow> 'a
     \<Rightarrow> 'v option \<times> 'v memo_state" where
  "cached ttl keyfn func st clock args =
     (let cache_key = keyfn args;
          (t_get, t_set1, t_set2) = clock;
          (cached_value, c1) = get_cached (memo_cache st) t_get cache_key
      in if cached_value \<noteq> None then (cached_value, st\<lparr>memo_cache := c1\<rparr>)
         else
           let result = func args;
               c2 = set_cached c1 t_set1 t_set2 cache_key result ttl
           in (result, \<lparr>memo_cache = c2, executions = executions st + 1\<rparr>))"

section \<open>middleware/rate\_limit.py\<close>

text \<open>Python's \<open>endpoint in path\<close> on strings: \<open>endpoint\<close> occurs as a contiguous substring.\<close>

fun startswith :: "string \<Rightarrow> string \<Rightarrow> bool" where
  "startswith s [] = True"
| "startswith [] (p # ps) = False"
| "startswith (c # s) (p # ps) = (c = p \<and> startswith s ps)"

fun str_contains :: "string \<Rightarrow> string \<Rightarrow> bool" where
  "str_contains [] sub = (sub = [])"
| "str_contains (c # s) sub = (startswith (c # s) sub \<or> str_contains s sub)"

record limit_config =
  max_requests :: nat
  window_seconds :: real

definition RATE_LIMITS :: "(string \<times> limit_config) list" where
  "RATE_LIMITS =
     [(''/optimize'', \<lparr>max_requests = 10, window_seconds = 60\<rparr>),
      (''/analyze'', \<lparr>max_requests = 20, window_seconds = 60\<rparr>),
      (''/generate-roads'', \<lparr>max_requests = 20, window_seconds = 60\<rparr>),
      (''/upload'', \<lparr>max_requests = 5, window_seconds = 60\<rparr>)]"

text \<open>The loop over \<open>RATE_LIMITS.items()\<close>: the first endpoint, in insertion order, that occurs
  in the path.\<close>

fun find_limit :: "(string \<times> limit_config) list \<Rightarrow> string \<Rightarrow> limit_config option" where
  "find_limit [] path = None"
| "find_limit ((endpoint, config) # rest) path =
     (if str_contains path endpoint then Some config else find_limit rest path)"

record request =
  url_path :: string
  client_host :: "string option"

record rate_entry =
  requests :: "real list"
  window_start :: real

type_synonym rate_limit_store = "string \<rightharpoonup> rate_entry"

definition request_key :: "request \<Rightarrow> string" where
  "request_key request =
     (case client_host request of Some h \<Rightarrow> h | None \<Rightarrow> ''unknown'') @ '':'' @ url_path request"

definition check_rate_limit :: "rate_limit_store \<Rightarrow> real \<Rightarrow> request \<Rightarrow> bool \<times> rate_limit_store" where
  "check_rate_limit store now request =
     (case find_limit RATE_LIMITS (url_path request) of
        None \<Rightarrow> (True, store)
      | Some limit \<Rightarrow>
          let key = request_key request;
              entry = (case store key of
                         Some e \<Rightarrow> e
                       | None \<Rightarrow> \<lparr>requests = [], window_start = now\<rparr>);
              cutoff = now - window_seconds limit;
              pruned = filter (\<lambda>req_time. req_time > cutoff) (requests entry)
          in if length pruned \<ge> max_requests limit
             then (False, store(key \<mapsto> entry\<lparr>requests := pruned\<rparr>))
             else (True, store(key \<mapsto> entry\<lparr>requests := pruned @ [now]\<rparr>)))"

text \<open>\<open>rate_limit_middleware\<close> of main.py: status 429 when the check fails, otherwise the
  status of the routed handler.\<close>

definition rate_limit_middleware ::
  "rate_limit_store \<Rightarrow> real \<Rightarrow> request \<Rightarrow> nat \<Rightarrow> nat \<times> rate_limit_store" where
  "rate_limit_middleware store now request handler_status =
     (case check_rate_limit store now request of
        (False, store') \<Rightarrow> (429, store')
      | (True, store') \<Rightarrow> (handler_status, store'))"

text \<open>A run of calls by one client on one path, at the clock readings given: the readings of
  the calls that were admitted, and the store at the end.\<close>

fun admitted :: "rate_limit_store \<Rightarrow> request \<Rightarrow> real list \<Rightarrow> real list" where
  "admitted store request [] = []"
| "admitted store request (now # later) =
     (case check_rate_limit store now request of
        (ok, store') \<Rightarrow> (if ok then [now] else []) @ admitted store' request later)"

text \<open>For stating the window property: the timestamps stored under a request's key, and how
  many timestamps of a list fall into the 60-second window that starts at \<open>a\<close>.\<close>

definition stored_requests :: "rate_limit_store \<Rightarrow> request \<Rightarrow> real list" where
  "stored_requests store request =
     (case store (request_key request) of Some e \<Rightarrow> requests e | None \<Rightarrow> [])"

definition in_window :: "real \<Rightarrow> real list \<Rightarrow> nat" where
  "in_window a ts = length (filter (\<lambda>t. a \<le> t \<and> t < a + 60) ts)"

section \<open>handlers/optimize.py: request deduplication\<close>

text \<open>A Python dict keeps insertion order, so \<open>_request_results\<close> is an association list with
  distinct keys: assignment overwrites in place or appends, \<open>next(iter(d))\<close> is the first key.\<close>

fun dict_set :: "('k \<times> 'v) list \<Rightarrow> 'k \<Rightarrow> 'v \<Rightarrow> ('k \<times> 'v) list" where
  "dict_set [] k v = [(k, v)]"
| "dict_set ((k', v') # d) k v = (if k' = k then (k, v) # d else (k', v') # dict_set d k v)"

definition dict_del :: "('k \<times> 'v) list \<Rightarrow> 'k \<Rightarrow> ('k \<times> 'v) list" where
  "dict_del d k = filter (\<lambda>kv. fst kv \<noteq> k) d"

record 'r dedup_state =
  pending_requests :: "string set"
  request_results :: "(string \<times> 'r) list"

datatype 'r http_response = Cached 'r | Accepted string | Completed 'r | ServerError

text \<open>\<open>optimize_layout\<close>, with the body of the \<open>try\<close> block (placement, regulatory fetch, AI
  analysis) given by its outcome: \<open>Inr result\<close>, or \<open>Inl e\<close> when it raised.\<close>

definition optimize_layout ::
  "'r dedup_state \<Rightarrow> string \<Rightarrow> py_error + 'r \<Rightarrow> 'r http_response \<times> 'r dedup_state" where
  "optimize_layout st request_hash outcome =
     (case map_of (request_results st) request_hash of
        Some r \<Rightarrow> (Cached r, st)
      | None \<Rightarrow>
          if request_hash \<in> pending_requests st then (Accepted request_hash, st)
          else
            let st1 = st\<lparr>pending_requests := insert request_hash (pending_requests st)\<rparr>
            in case outcome of
                 Inl e \<Rightarrow>
                   (ServerError, st1\<lparr>pending_requests := pending_requests st1 - {request_hash}\<rparr>)
               | Inr result \<Rightarrow>
                   let st2 = st1\<lparr>pending_requests := pending_requests st1 - {request_hash}\<rparr>;
                       results = dict_set (request_results st2) request_hash result;
                       results' = (if length results > 10
                                   then (case results of
                                           [] \<Rightarrow> results
                                         | (oldest_key, _) # _ \<Rightarrow> dict_del results oldest_key)
                                   else results)
                   in (Completed result, st2\<lparr>request_results := results'\<rparr>))"

text \<open>The handler serving a list of requests, each with its hash and the outcome of its
  processing.\<close>

fun serve :: "'r dedup_state \<Rightarrow> (string \<times> (py_error + 'r)) list \<Rightarrow> 'r dedup_state" where
  "serve st [] = st"
| "serve st ((h, outcome) # rest) = serve (snd (optimize_layout st h outcome)) rest"

definition initial_state :: "'r dedup_state" where
  "initial_state = \<lparr>pending_requests = {}, request_results = []\<rparr>"

section \<open>numpy arrays and Python arithmetic\<close>

text \<open>A two-dimensional \<open>ndarray\<close> of floats: its shape and its cells. Indexing checks the
  range (a negative index counts from the end, as in numpy) and raises \<open>IndexError\<close>
  outside it.\<close>

record ndarray =
  shape0 :: nat
  shape1 :: nat
  cells :: "nat \<Rightarrow> nat \<Rightarrow> real"

definition np_full :: "nat \<Rightarrow> nat \<Rightarrow> real \<Rightarrow> ndarray" where
  "np_full n m v = \<lparr>shape0 = n, shape1 = m, cells = (\<lambda>i j. v)\<rparr>"

definition zeros_like :: "ndarray \<Rightarrow> ndarray" where
  "zeros_like a = np_full (shape0 a) (shape1 a) 0"

definition wrap_index :: "nat \<Rightarrow> int \<Rightarrow> int" where
  "wrap_index n i = (if i < 0 then i + int n else i)"

definition getitem :: "ndarray \<Rightarrow> int \<Rightarrow> int \<Rightarrow> py_error + real" where
  "getitem a i j =
     (let i' = wrap_index (shape0 a) i; j' = wrap_index (shape1 a) j
      in if 0 \<le> i' \<and> i' < int (shape0 a) \<and> 0 \<le> j' \<and> j' < int (shape1 a)
         then Inr (cells a (nat i') (nat j'))
         else Inl IndexError)"

definition setitem :: "ndarray \<Rightarrow> int \<Rightarrow> int \<Rightarrow> real \<Rightarrow> py_error + ndarray" where
  "setitem a i j v =
     (let i' = wrap_index (shape0 a) i; j' = wrap_index (shape1 a) j
      in if 0 \<le> i' \<and> i' < int (shape0 a) \<and> 0 \<le> j' \<and> j' < int (shape1 a)
         then Inr (a\<lparr>cells := (cells a)(nat i' := (cells a (nat i'))(nat j' := v))\<rparr>)
         else Inl IndexError)"

text \<open>\<open>a[mask] = v\<close> with a boolean mask of the array's own shape.\<close>

definition masked_assign :: "ndarray \<Rightarrow> (nat \<Rightarrow> nat \<Rightarrow> bool) \<Rightarrow> real \<Rightarrow> ndarray" where
  "masked_assign a selected v =
     a\<lparr>cells := (\<lambda>i j. if i < shape0 a \<and> j < shape1 a \<and> selected i j then v else cells a i j)\<rparr>"

definition np_sum :: "ndarray \<Rightarrow> real" where
  "np_sum a = sum_list (map (\<lambda>i. sum_list (map (\<lambda>j. cells a i j) [0..<shape1 a])) [0..<shape0 a])"

text \<open>\<open>int(x)\<close> on a float truncates towards zero; \<open>range(a, b)\<close>; a value's truth value
  (\<open>None\<close> and zero are false); a loop whose body may raise.\<close>

definition py_int :: "real \<Rightarrow> int" where
  "py_int x = (if 0 \<le> x then \<lfloor>x\<rfloor> else \<lceil>x\<rceil>)"

definition py_range :: "int \<Rightarrow> int \<Rightarrow> int list" where
  "py_range a b = [a..b - 1]"

definition truthy :: "real option \<Rightarrow> bool" where
  "truthy v = (case v of None \<Rightarrow> False | Some r \<Rightarrow> r \<noteq> 0)"

fun for_each :: "('a \<Rightarrow> 's \<Rightarrow> py_error + 's) \<Rightarrow> 'a list \<Rightarrow> 's \<Rightarrow> py_error + 's" where
  "for_each body [] s = Inr s"
| "for_each body (x # xs) s =
     (case body x s of Inl e \<Rightarrow> Inl e | Inr s' \<Rightarrow> for_each body xs s')"

definition FEET_TO_DEGREES :: real where
  "FEET_TO_DEGREES = 1 / 364000"

section \<open>The geometry library\<close>

text \<open>shapely is not part of the repository: its operations are a parameter of every function
  that calls them, over an arbitrary type \<open>'g\<close> of geometries. An operation the code wraps
  in \<open>try\<close> may raise.\<close>

record 'g shapely =
  contains :: "'g \<Rightarrow> point \<Rightarrow> py_error + bool"
  buffer :: "'g \<Rightarrow> real \<Rightarrow> py_error + 'g"
  is_empty :: "'g \<Rightarrow> bool"
  is_valid :: "'g \<Rightarrow> bool"
  geom_bounds :: "'g \<Rightarrow> py_error + bbox"
  unary_union :: "'g list \<Rightarrow> py_error + 'g"
  centroid :: "'g \<Rightarrow> point"
  area :: "'g \<Rightarrow> real"

text \<open>A small instance of the library, for running the functions on concrete inputs: a
  geometry is a union of axis-parallel rectangles, each given by its corners; a rectangle
  contains the points of its interior, and buffering moves every side by the distance.\<close>

type_synonym rects = "bbox list"

definition rect_contains :: "bbox \<Rightarrow> point \<Rightarrow> bool" where
  "rect_contains r p =
     (case r of (x0, y0, x1, y1) \<Rightarrow> case p of (x, y) \<Rightarrow> x0 < x \<and> x < x1 \<and> y0 < y \<and> y < y1)"

definition rect_grow :: "real \<Rightarrow> bbox \<Rightarrow> bbox" where
  "rect_grow d r = (case r of (x0, y0, x1, y1) \<Rightarrow> (x0 - d, y0 - d, x1 + d, y1 + d))"

definition rect_empty :: "bbox \<Rightarrow> bool" where
  "rect_empty r = (case r of (x0, y0, x1, y1) \<Rightarrow> x1 \<le> x0 \<or> y1 \<le> y0)"

definition rect_hull :: "bbox \<Rightarrow> bbox \<Rightarrow> bbox" where
  "rect_hull r s =
     (case r of (x0, y0, x1, y1) \<Rightarrow> case s of (u0, v0, u1, v1) \<Rightarrow>
        (min x0 u0, min y0 v0, max x1 u1, max y1 v1))"

definition rect_geometry :: "rects shapely" where
  "rect_geometry =
     \<lparr>contains = (\<lambda>g p. Inr (list_ex (\<lambda>r. rect_contains r p) g)),
      buffer = (\<lambda>g d. Inr (filter (\<lambda>r. \<not> rect_empty r) (map (rect_grow d) g))),
      is_empty = (\<lambda>g. list_all rect_empty g),
      is_valid = (\<lambda>g. True),
      geom_bounds = (\<lambda>g. case g of [] \<Rightarrow> Inl ValueError | r # rs \<Rightarrow> Inr (fold rect_hull rs r)),
      unary_union = (\<lambda>gs. Inr (concat gs)),
      centroid = (\<lambda>g. case g of [] \<Rightarrow> (0, 0)
                       | (x0, y0, x1, y1) # rs \<Rightarrow> ((x0 + x1) / 2, (y0 + y1) / 2)),
      area = (\<lambda>g. sum_list (map (\<lambda>r. case r of (x0, y0, x1, y1) \<Rightarrow> (x1 - x0) * (y1 - y0)) g))\<rparr>"

section \<open>services/terrain\_analyzer.py\<close>

definition get_terrain_suitability_score ::
  "point \<Rightarrow> ndarray \<Rightarrow> ndarray \<Rightarrow> ndarray \<Rightarrow> bbox \<Rightarrow> real \<Rightarrow> py_error + real" where
  "get_terrain_suitability_score point slope aspect dem bounds resolution =
     (case bounds of (minx, miny, maxx, maxy) \<Rightarrow>
      case point of (x, y) \<Rightarrow>
        if \<not> (minx \<le> x \<and> x \<le> maxx \<and> miny \<le> y \<and> y \<le> maxy) then Inr 0
        else if resolution = 0 then Inl ZeroDivisionError
        else
          let i = py_int ((y - miny) / resolution);
              j = py_int ((x - minx) / resolution)
          in if i < 0 \<or> i \<ge> int (shape0 slope) \<or> j < 0 \<or> j \<ge> int (shape1 slope) then Inr 0
             else
               case getitem slope i j of
                 Inl e \<Rightarrow> Inl e
               | Inr point_slope \<Rightarrow>
                   case getitem aspect i j of
                     Inl e \<Rightarrow> Inl e
                   | Inr point_aspect \<Rightarrow>
                       let slope_score = (if point_slope > 15 then 0 else 1 - point_slope / 15);
                           aspect_diff = \<bar>point_aspect - 180\<bar>;
                           aspect_diff' = (if aspect_diff > 180 then 360 - aspect_diff
                                           else aspect_diff);
                           aspect_score = 1 - aspect_diff' / 180;
                           suitability = 0.8 * slope_score + 0.2 * aspect_score
                       in Inr suitability)"

section \<open>services/cutfill\_calculator.py\<close>

record asset_pad =
  pad_x :: "real option"
  pad_y :: "real option"
  pad_elevation :: "real option"
  pad_size :: "real option"

record road_grade =
  road_centerline :: "point list"
  road_width :: "real option"
  road_elevations :: "real list"

record proposed_grades =
  default_elevation :: "real option"
  baseline_dem :: "ndarray option"
  grade_assets :: "asset_pad list"
  grade_roads :: "road_grade list"

definition get_or :: "'a option \<Rightarrow> 'a \<Rightarrow> 'a" where
  "get_or v d = (case v of Some x \<Rightarrow> x | None \<Rightarrow> d)"

text \<open>The two nested \<open>range(-radius, radius + 1)\<close> loops that write one elevation around the
  cell \<open>(i, j)\<close>, inside the DEM's shape.\<close>

definition stamp :: "nat \<times> nat \<Rightarrow> int \<Rightarrow> int \<Rightarrow> int \<Rightarrow> real \<Rightarrow> ndarray \<Rightarrow> py_error + ndarray" where
  "stamp dem_shape i j radius elevation proposed_dem =
     for_each
       (\<lambda>di. for_each
          (\<lambda>dj a.
             let ni = i + di; nj = j + dj
             in if 0 \<le> ni \<and> ni < int (fst dem_shape) \<and> 0 \<le> nj \<and> nj < int (snd dem_shape)
                then setitem a ni nj elevation
                else Inr a)
          (py_range (- radius) (radius + 1)))
       (py_range (- radius) (radius + 1))
       proposed_dem"

definition apply_asset_pad ::
  "real \<Rightarrow> nat \<times> nat \<Rightarrow> bbox \<Rightarrow> asset_pad \<Rightarrow> ndarray \<Rightarrow> py_error + ndarray" where
  "apply_asset_pad grid_resolution dem_shape bounds asset proposed_dem =
     (case bounds of (minx, miny, maxx, maxy) \<Rightarrow>
        let x = get_or (pad_x asset) 0;
            y = get_or (pad_y asset) 0;
            size = get_or (pad_size asset) 50
        in if truthy (pad_elevation asset) then
             let grid_res_deg = grid_resolution * FEET_TO_DEGREES;
                 pad_size_deg = size * FEET_TO_DEGREES
             in if grid_res_deg = 0 then Inl ZeroDivisionError
                else stamp dem_shape
                       (py_int ((y - miny) / grid_res_deg))
                       (py_int ((x - minx) / grid_res_deg))
                       (py_int (pad_size_deg / grid_res_deg))
                       (get_or (pad_elevation asset) 0)
                       proposed_dem
           else Inr proposed_dem)"

text \<open>One vertex of a road's centerline, with its index from \<open>enumerate\<close>.\<close>

definition apply_road_point ::
  "real \<Rightarrow> real option \<Rightarrow> nat \<times> nat \<Rightarrow> bbox \<Rightarrow> road_grade \<Rightarrow> nat \<times> point \<Rightarrow> ndarray
     \<Rightarrow> py_error + ndarray" where
  "apply_road_point grid_resolution default_elev dem_shape bounds road indexed proposed_dem =
     (case bounds of (minx, miny, maxx, maxy) \<Rightarrow>
      case indexed of (idx, (x, y)) \<Rightarrow>
        let elevation = (if idx < length (road_elevations road) then road_elevations road ! idx
                         else if truthy default_elev then get_or default_elev 0 else 0);
            grid_res_deg = grid_resolution * FEET_TO_DEGREES;
            road_width_deg = get_or (road_width road) 20 * FEET_TO_DEGREES
        in if grid_res_deg = 0 then Inl ZeroDivisionError
           else stamp dem_shape
                  (py_int ((y - miny) / grid_res_deg))
                  (py_int ((x - minx) / grid_res_deg))
                  (py_int (road_width_deg / (2 * grid_res_deg)))
                  elevation
                  proposed_dem)"

definition create_proposed_dem ::
  "real \<Rightarrow> proposed_grades \<Rightarrow> nat \<times> nat \<Rightarrow> bbox \<Rightarrow> py_error + ndarray" where
  "create_proposed_dem grid_resolution grades dem_shape bounds =
     (let zero_dem = np_full (fst dem_shape) (snd dem_shape) 0;
          proposed_dem =
            (if truthy (default_elevation grades)
             then np_full (fst dem_shape) (snd dem_shape) (get_or (default_elevation grades) 0)
             else get_or (baseline_dem grades) zero_dem)
      in case for_each (apply_asset_pad grid_resolution dem_shape bounds)
                (grade_assets grades) proposed_dem of
           Inl e \<Rightarrow> Inl e
         | Inr with_pads \<Rightarrow>
             for_each
               (\<lambda>road. for_each
                  (apply_road_point grid_resolution (default_elevation grades) dem_shape bounds road)
                  (enumerate 0 (road_centerline road)))
               (grade_roads grades) with_pads)"

record area_breakdown =
  total_area_sqft :: real
  total_area_acres :: real
  cut_per_acre_yd3 :: real
  fill_per_acre_yd3 :: real

record volumes =
  cut_volume_ft3 :: real
  fill_volume_ft3 :: real
  net_volume_ft3 :: real
  cut_volume_yd3 :: real
  fill_volume_yd3 :: real
  net_volume_yd3 :: real
  breakdown :: "area_breakdown option"
  cut_map :: ndarray
  fill_map :: ndarray

text \<open>The body of the loop over the cells: the state is the pair of \<open>cut_volumes\<close> and
  \<open>fill_volumes\<close>. A shapely polygon is true when it is not empty.\<close>

definition volume_cell ::
  "'g shapely \<Rightarrow> real \<Rightarrow> ndarray \<Rightarrow> ndarray \<Rightarrow> bbox \<Rightarrow> 'g option \<Rightarrow> nat \<Rightarrow> nat
     \<Rightarrow> ndarray \<times> ndarray \<Rightarrow> py_error + ndarray \<times> ndarray" where
  "volume_cell lib grid_resolution dem proposed_dem bounds property_boundary i j maps =
     (case bounds of (minx, miny, maxx, maxy) \<Rightarrow>
      case maps of (cut_volumes, fill_volumes) \<Rightarrow>
      case getitem dem (int i) (int j) of
        Inl e \<Rightarrow> Inl e
      | Inr existing_elev \<Rightarrow>
          case getitem proposed_dem (int i) (int j) of
            Inl e \<Rightarrow> Inl e
          | Inr proposed_elev \<Rightarrow>
              case (case property_boundary of
                      None \<Rightarrow> Inr True
                    | Some boundary \<Rightarrow>
                        if is_empty lib boundary then Inr True
                        else
                          let grid_res_deg = grid_resolution * FEET_TO_DEGREES;
                              x = minx + real j * grid_res_deg;
                              y = miny + real i * grid_res_deg
                          in contains lib boundary (x, y)) of
                Inl e \<Rightarrow> Inl e
              | Inr inside \<Rightarrow>
                  if \<not> inside then Inr maps
                  else if proposed_elev < existing_elev then
                    (case setitem cut_volumes (int i) (int j) (existing_elev - proposed_elev) of
                       Inl e \<Rightarrow> Inl e
                     | Inr cut' \<Rightarrow> Inr (cut', fill_volumes))
                  else if proposed_elev > existing_elev then
                    (case setitem fill_volumes (int i) (int j) (proposed_elev - existing_elev) of
                       Inl e \<Rightarrow> Inl e
                     | Inr fill' \<Rightarrow> Inr (cut_volumes, fill'))
                  else Inr maps)"

definition calculate_volumes ::
  "'g shapely \<Rightarrow> real \<Rightarrow> ndarray \<Rightarrow> proposed_grades \<Rightarrow> bbox \<Rightarrow> 'g option \<Rightarrow> py_error + volumes" where
  "calculate_volumes lib grid_resolution dem grades bounds property_boundary =
     (case create_proposed_dem grid_resolution grades (shape0 dem, shape1 dem) bounds of
        Inl e \<Rightarrow> Inl e
      | Inr proposed_dem \<Rightarrow>
          case for_each
                 (\<lambda>i. for_each
                    (volume_cell lib grid_resolution dem proposed_dem bounds property_boundary i)
                    [0..<shape1 dem])
                 [0..<shape0 dem]
                 (zeros_like dem, zeros_like dem) of
            Inl e \<Rightarrow> Inl e
          | Inr (cut_volumes, fill_volumes) \<Rightarrow>
              let cell_area = grid_resolution * grid_resolution;
                  total_cut = np_sum cut_volumes * cell_area;
                  total_fill = np_sum fill_volumes * cell_area;
                  net_volume = total_cut - total_fill;
                  total_cut_yd3 = total_cut / 27;
                  total_fill_yd3 = total_fill / 27;
                  net_volume_yd3 = net_volume / 27;
                  by_area =
                    (case property_boundary of
                       None \<Rightarrow> None
                     | Some boundary \<Rightarrow>
                         if is_empty lib boundary then None
                         else
                           let total_area = area lib boundary
                           in Some \<lparr>total_area_sqft = total_area,
                                    total_area_acres = total_area / 43560,
                                    cut_per_acre_yd3 =
                                      (if total_area > 0 then total_cut_yd3 / (total_area / 43560)
                                       else 0),
                                    fill_per_acre_yd3 =
                                      (if total_area > 0 then total_fill_yd3 / (total_area / 43560)
                                       else 0)\<rparr>)
              in Inr \<lparr>cut_volume_ft3 = total_cut,
                      fill_volume_ft3 = total_fill,
                      net_volume_ft3 = net_volume,
                      cut_volume_yd3 = total_cut_yd3,
                      fill_volume_yd3 = total_fill_yd3,
                      net_volume_yd3 = net_volume_yd3,
                      breakdown = by_area,
                      cut_map = cut_volumes,
                      fill_map = fill_volumes\<rparr>)"

record visualization_map =
  visualization :: ndarray
  map_bounds :: bbox
  legend :: "(string \<times> string) list"

text \<open>A mask of another shape than the array it indexes raises \<open>IndexError\<close>.\<close>

definition generate_visualization_map ::
  "ndarray \<Rightarrow> ndarray \<Rightarrow> bbox \<Rightarrow> py_error + visualization_map" where
  "generate_visualization_map cut_map' fill_map' bounds =
     (let visualization0 = zeros_like cut_map';
          cut_areas = (\<lambda>i j. cells cut_map' i j > 0);
          fill_areas = (\<lambda>i j. cells fill_map' i j > 0);
          visualization1 = masked_assign visualization0 cut_areas 1
      in if shape0 fill_map' \<noteq> shape0 cut_map' \<or> shape1 fill_map' \<noteq> shape1 cut_map'
         then Inl IndexError
         else
           let visualization2 = masked_assign visualization1 fill_areas 2;
               balanced_threshold = 0.1;
               balanced = (\<lambda>i j. \<bar>cells cut_map' i j - cells fill_map' i j\<bar> < balanced_threshold);
               visualization3 = masked_assign visualization2 balanced 3
           in Inr \<lparr>visualization = visualization3,
                   map_bounds = bounds,
                   legend = [(''0'', ''No change''), (''1'', ''Cut area''),
                             (''2'', ''Fill area''), (''3'', ''Balanced area'')]\<rparr>)"

section \<open>services/asset\_placer.py: candidate locations\<close>

text \<open>The buffered boundary: the boundary shrunk by the buffer; when that is empty or invalid,
  shrunk by a tenth of it; when that is empty, or when buffering raises, the boundary itself.\<close>

definition buffered_boundary_of :: "'g shapely \<Rightarrow> 'g \<Rightarrow> real \<Rightarrow> 'g" where
  "buffered_boundary_of lib property_boundary buffer_boundary_deg =
     (case buffer lib property_boundary (- buffer_boundary_deg) of
        Inl e \<Rightarrow> property_boundary
      | Inr buffered_boundary \<Rightarrow>
          if is_empty lib buffered_boundary \<or> \<not> is_valid lib buffered_boundary then
            (case buffer lib property_boundary (- buffer_boundary_deg * 0.1) of
               Inl e \<Rightarrow> property_boundary
             | Inr smaller \<Rightarrow> if is_empty lib smaller then property_boundary else smaller)
          else buffered_boundary)"

definition exclusion_union_of :: "'g shapely \<Rightarrow> 'g list \<Rightarrow> real \<Rightarrow> 'g option" where
  "exclusion_union_of lib exclusion_zones buffer_exclusion_deg =
     (let buffered_exclusions =
            map (\<lambda>zone. case buffer lib zone buffer_exclusion_deg of
                           Inl e \<Rightarrow> zone
                         | Inr z \<Rightarrow> z) exclusion_zones
      in if buffered_exclusions \<noteq> [] then
           (case unary_union lib buffered_exclusions of Inl e \<Rightarrow> None | Inr u \<Rightarrow> Some u)
         else None)"

text \<open>The test in the body of the grid loop; a containment test that raises skips the
  point.\<close>

definition accepts :: "'g shapely \<Rightarrow> 'g \<Rightarrow> 'g option \<Rightarrow> point \<Rightarrow> bool" where
  "accepts lib buffered_boundary exclusion_union p =
     (case contains lib buffered_boundary p of
        Inl e \<Rightarrow> False
      | Inr inside \<Rightarrow>
          if inside then
            (case exclusion_union of
               None \<Rightarrow> True
             | Some u \<Rightarrow> (case contains lib u p of Inl e \<Rightarrow> False | Inr excluded \<Rightarrow> \<not> excluded))
          else False)"

definition MAX_CANDIDATES :: nat where
  "MAX_CANDIDATES = 10000"

text \<open>The inner loop over \<open>y\<close> and the outer loop over \<open>x\<close>. Neither need end (the step may
  be zero or negative), so each is a partial function; the inner one says whether it left by
  the \<open>return\<close> at the candidate limit or ran out of its column.\<close>

datatype 'a loop_exit = Returned 'a | Fell_through 'a

partial_function (option) scan_column ::
  "(point \<Rightarrow> bool) \<Rightarrow> real \<Rightarrow> real \<Rightarrow> real \<Rightarrow> real \<Rightarrow> point list \<Rightarrow> point list loop_exit option" where
  "scan_column accept step maxy x y candidates =
     (if y \<le> maxy then
        if accept (x, y) then
          if length (candidates @ [(x, y)]) \<ge> MAX_CANDIDATES
          then Some (Returned (candidates @ [(x, y)]))
          else scan_column accept step maxy x (y + step) (candidates @ [(x, y)])
        else scan_column accept step maxy x (y + step) candidates
      else Some (Fell_through candidates))"

partial_function (option) scan_grid ::
  "(point \<Rightarrow> bool) \<Rightarrow> real \<Rightarrow> real \<Rightarrow> real \<Rightarrow> real \<Rightarrow> real \<Rightarrow> point list \<Rightarrow> point list option" where
  "scan_grid accept step miny maxx maxy x candidates =
     (if x \<le> maxx then
        Option.bind (scan_column accept step maxy x miny candidates)
          (\<lambda>exit. case exit of
                     Returned found \<Rightarrow> Some found
                   | Fell_through found \<Rightarrow> scan_grid accept step miny maxx maxy (x + step) found)
      else Some candidates)"

text \<open>\<open>generate_candidate_locations\<close>: \<open>None\<close> when the grid loop does not end, \<open>Inl e\<close> when
  the call raises, \<open>Inr candidates\<close> when it returns.\<close>

definition generate_candidate_locations ::
  "'g shapely \<Rightarrow> 'g \<Rightarrow> 'g list \<Rightarrow> real \<Rightarrow> real \<Rightarrow> real \<Rightarrow> (py_error + point list) option" where
  "generate_candidate_locations lib property_boundary exclusion_zones grid_resolution
       buffer_boundary buffer_exclusion =
     (let buffer_boundary_deg = buffer_boundary * FEET_TO_DEGREES;
          buffer_exclusion_deg = buffer_exclusion * FEET_TO_DEGREES;
          grid_resolution_deg = grid_resolution * FEET_TO_DEGREES;
          buffered_boundary = buffered_boundary_of lib property_boundary buffer_boundary_deg;
          exclusion_union = exclusion_union_of lib exclusion_zones buffer_exclusion_deg
      in case (case geom_bounds lib buffered_boundary of
                 Inl e \<Rightarrow> geom_bounds lib property_boundary
               | Inr b \<Rightarrow> Inr b) of
           Inl e \<Rightarrow> Some (Inl e)
         | Inr (minx, miny, maxx, maxy) \<Rightarrow>
             if grid_resolution_deg = 0 then Some (Inl ZeroDivisionError)
             else
               let bbox_width_deg = maxx - minx;
                   bbox_height_deg = maxy - miny;
                   estimated_points = py_int ((bbox_width_deg / grid_resolution_deg)
                                              * (bbox_height_deg / grid_resolution_deg));
                   step = (if estimated_points > int MAX_CANDIDATES
                           then grid_resolution_deg
                                * sqrt (real_of_int estimated_points / real MAX_CANDIDATES)
                           else grid_resolution_deg)
               in map_option Inr
                    (scan_grid (accepts lib buffered_boundary exclusion_union)
                       step miny maxx maxy minx []))"

section \<open>services/road\_generator.py\<close>

text \<open>A cost or score is a float that may be \<open>float('inf')\<close>: a real or \<open>PInf\<close>.\<close>

datatype xreal = Fin real | PInf

fun xadd :: "xreal \<Rightarrow> xreal \<Rightarrow> xreal" where
  "xadd (Fin a) (Fin b) = Fin (a + b)"
| "xadd PInf b = PInf"
| "xadd a PInf = PInf"

fun xless :: "xreal \<Rightarrow> xreal \<Rightarrow> bool" where
  "xless (Fin a) (Fin b) = (a < b)"
| "xless (Fin a) PInf = True"
| "xless PInf b = False"

definition max_grade :: real where
  "max_grade = 8"

definition min_width_access :: real where
  "min_width_access = 20"

definition min_width_secondary :: real where
  "min_width_secondary = 12"

definition avoid_slope_above :: real where
  "avoid_slope_above = 15"

definition calculate_grade :: "real \<times> real \<times> real \<Rightarrow> real \<times> real \<times> real \<Rightarrow> real" where
  "calculate_grade point1 point2 =
     (case point1 of (x1, y1, z1) \<Rightarrow> case point2 of (x2, y2, z2) \<Rightarrow>
        let horizontal_dist = sqrt ((x2 - x1)\<^sup>2 + (y2 - y1)\<^sup>2)
        in if horizontal_dist = 0 then 0
           else
             let vertical_change = z2 - z1
             in (vertical_change / horizontal_dist) * 100)"

definition get_elevation_at_point :: "point \<Rightarrow> ndarray \<Rightarrow> bbox \<Rightarrow> real \<Rightarrow> py_error + real" where
  "get_elevation_at_point p dem bounds resolution =
     (case bounds of (minx, miny, maxx, maxy) \<Rightarrow> case p of (x, y) \<Rightarrow>
        if resolution = 0 then Inl ZeroDivisionError
        else
          let i = py_int ((y - miny) / resolution);
              j = py_int ((x - minx) / resolution)
          in if i < 0 \<or> i \<ge> int (shape0 dem) \<or> j < 0 \<or> j \<ge> int (shape1 dem) then Inr 0
             else getitem dem i j)"

definition heuristic :: "point \<Rightarrow> point \<Rightarrow> real" where
  "heuristic a b = sqrt ((fst a - fst b)\<^sup>2 + (snd a - snd b)\<^sup>2)"

text \<open>The loop over the exclusion zones inside \<open>cost\<close>.\<close>

fun in_exclusion_zone :: "'g shapely \<Rightarrow> 'g list \<Rightarrow> point \<Rightarrow> py_error + bool" where
  "in_exclusion_zone lib [] p = Inr False"
| "in_exclusion_zone lib (zone # zones) p =
     (case contains lib zone p of
        Inl e \<Rightarrow> Inl e
      | Inr inside \<Rightarrow> if inside then Inr True else in_exclusion_zone lib zones p)"

text \<open>What the search is given and does not change.\<close>

record 'g search =
  env_lib :: "'g shapely"
  env_boundary :: 'g
  env_zones :: "'g list"
  env_dem :: "ndarray option"
  env_bounds :: "bbox option"
  env_resolution :: real
  env_grid_size :: real
  env_goal :: point

definition cost :: "'g search \<Rightarrow> point \<Rightarrow> point \<Rightarrow> py_error + xreal" where
  "cost env current next_point =
     (let distance = heuristic current next_point
      in case in_exclusion_zone (env_lib env) (env_zones env) next_point of
           Inl e \<Rightarrow> Inl e
         | Inr excluded \<Rightarrow>
             if excluded then Inr PInf
             else
               case (env_dem env, env_bounds env) of
                 (Some d, Some b) \<Rightarrow>
                   (case get_elevation_at_point current d b (env_resolution env) of
                      Inl e \<Rightarrow> Inl e
                    | Inr elev_current \<Rightarrow>
                        case get_elevation_at_point next_point d b (env_resolution env) of
                          Inl e \<Rightarrow> Inl e
                        | Inr elev_next \<Rightarrow>
                            let grade = calculate_grade
                                          (fst current, snd current, elev_current)
                                          (fst next_point, snd next_point, elev_next);
                                terrain_cost =
                                  (if \<bar>grade\<bar> > max_grade then 10
                                   else if \<bar>grade\<bar> > avoid_slope_above then 5
                                   else 1 + \<bar>grade\<bar> / 10)
                            in Inr (Fin (distance * terrain_cost)))
               | _ \<Rightarrow> Inr (Fin (distance * 1)))"

text \<open>The open set. \<open>heapq\<close> keeps a binary heap in a list; what the search sees of it is
  that \<open>heappop\<close> hands out the least item, in Python's order on tuples, and keeps the rest.
  The layout of the heap is not modelled.\<close>

type_synonym heap_item = "xreal \<times> point"

definition point_less :: "point \<Rightarrow> point \<Rightarrow> bool" where
  "point_less p q = (fst p < fst q \<or> (fst p = fst q \<and> snd p < snd q))"

definition item_less :: "heap_item \<Rightarrow> heap_item \<Rightarrow> bool" where
  "item_less a b =
     (if fst a \<noteq> fst b then xless (fst a) (fst b) else point_less (snd a) (snd b))"

fun least_item :: "heap_item \<Rightarrow> heap_item list \<Rightarrow> heap_item" where
  "least_item m [] = m"
| "least_item m (x # xs) = least_item (if item_less x m then x else m) xs"

definition heappop :: "heap_item list \<Rightarrow> heap_item \<times> heap_item list" where
  "heappop h = (let m = least_item (hd h) (tl h) in (m, remove1 m h))"

definition heappush :: "heap_item list \<Rightarrow> heap_item \<Rightarrow> heap_item list" where
  "heappush h x = h @ [x]"

record astar_state =
  open_set :: "heap_item list"
  came_from :: "point \<rightharpoonup> point"
  g_score :: "point \<rightharpoonup> xreal"
  f_score :: "point \<rightharpoonup> xreal"

text \<open>The body of the two loops over \<open>dx\<close> and \<open>dy\<close>, for one pair of offsets.\<close>

definition visit_neighbor ::
  "'g search \<Rightarrow> point \<Rightarrow> real \<Rightarrow> real \<Rightarrow> astar_state \<Rightarrow> py_error + astar_state" where
  "visit_neighbor env current dx dy st =
     (if dx = 0 \<and> dy = 0 then Inr st
      else
        let neighbor = (fst current + dx, snd current + dy)
        in case contains (env_lib env) (env_boundary env) neighbor of
             Inl e \<Rightarrow> Inl e
           | Inr inside \<Rightarrow>
               if \<not> inside then Inr st
               else
                 case g_score st current of
                   None \<Rightarrow> Inl KeyError
                 | Some g_current \<Rightarrow>
                     case cost env current neighbor of
                       Inl e \<Rightarrow> Inl e
                     | Inr step_cost \<Rightarrow>
                         let tentative_g = xadd g_current step_cost
                         in if (case g_score st neighbor of
                                  None \<Rightarrow> True
                                | Some g \<Rightarrow> xless tentative_g g)
                            then
                              let f = xadd tentative_g (Fin (heuristic neighbor (env_goal env)))
                              in Inr \<lparr>open_set = heappush (open_set st) (f, neighbor),
                                      came_from = (came_from st)(neighbor \<mapsto> current),
                                      g_score = (g_score st)(neighbor \<mapsto> tentative_g),
                                      f_score = (f_score st)(neighbor \<mapsto> f)\<rparr>
                            else Inr st)"

definition explore_neighbors :: "'g search \<Rightarrow> point \<Rightarrow> astar_state \<Rightarrow> py_error + astar_state" where
  "explore_neighbors env current st =
     for_each
       (\<lambda>dx. for_each (\<lambda>dy. visit_neighbor env current dx dy)
                [- env_grid_size env, 0, env_grid_size env])
       [- env_grid_size env, 0, env_grid_size env]
       st"

text \<open>Walking the back-pointers from the node that reached the goal. The walk ends only if the
  back-pointers do not run in a circle, so it is a partial function.\<close>

partial_function (option) walk_back ::
  "(point \<rightharpoonup> point) \<Rightarrow> point \<Rightarrow> point list \<Rightarrow> point list option" where
  "walk_back came current path =
     (case came current of
        None \<Rightarrow> Some path
      | Some previous \<Rightarrow> walk_back came previous (path @ [previous]))"

text \<open>What a search reports: how it ended (\<open>None\<close>: the walk along the back-pointers does not
  end; \<open>Some (Inl e)\<close>: it raised; \<open>Some (Inr None)\<close>: it returned \<open>None\<close>, no path;
  \<open>Some (Inr (Some path))\<close>: it returned a path), and the values of \<open>iterations\<close> and
  \<open>visited\<close> that its last message prints.\<close>

record search_report =
  returned :: "(py_error + point list option) option"
  iterations_run :: nat
  visited_nodes :: "point set"

definition max_iterations :: nat where
  "max_iterations = 10000"

function a_star_loop ::
  "'g search \<Rightarrow> nat \<Rightarrow> point set \<Rightarrow> astar_state \<Rightarrow> search_report" where
  "a_star_loop env iterations visited st =
     (if open_set st \<noteq> [] \<and> iterations < max_iterations then
        (case heappop (open_set st) of
           ((current_f, current), rest) \<Rightarrow>
             if current \<in> visited
             then a_star_loop env (iterations + 1) visited (st\<lparr>open_set := rest\<rparr>)
             else
               let goal_threshold = max (env_grid_size env * 2) 0.0001
               in if heuristic current (env_goal env) < goal_threshold then
                    \<lparr>returned = map_option (\<lambda>path. Inr (Some (rev path)))
                                  (walk_back (came_from st) current [env_goal env]),
                     iterations_run = iterations + 1,
                     visited_nodes = insert current visited\<rparr>
                  else
                    (case explore_neighbors env current (st\<lparr>open_set := rest\<rparr>) of
                       Inl e \<Rightarrow>
                         \<lparr>returned = Some (Inl e),
                          iterations_run = iterations + 1,
                          visited_nodes = insert current visited\<rparr>
                     | Inr st' \<Rightarrow>
                         a_star_loop env (iterations + 1) (insert current visited) st'))
      else \<lparr>returned = Some (Inr None), iterations_run = iterations, visited_nodes = visited\<rparr>)"
  by pat_completeness auto
termination
  by (relation "measure (\<lambda>(env, iterations, visited, st). max_iterations - iterations)") auto

declare a_star_loop.simps [simp del]

text \<open>A start or goal that the boundary does not contain is replaced by the boundary's
  centroid.\<close>

definition snap_to_boundary :: "'g shapely \<Rightarrow> 'g \<Rightarrow> point \<Rightarrow> py_error + point" where
  "snap_to_boundary lib boundary p =
     (case contains lib boundary p of
        Inl e \<Rightarrow> Inl e
      | Inr inside \<Rightarrow> if \<not> inside then Inr (centroid lib boundary) else Inr p)"

definition grid_size_of :: "real \<Rightarrow> real" where
  "grid_size_of res = (if res > 0.001 then res * FEET_TO_DEGREES else res)"

definition a_star_search ::
  "'g shapely \<Rightarrow> point \<Rightarrow> point \<Rightarrow> 'g \<Rightarrow> 'g list \<Rightarrow> ndarray option \<Rightarrow> bbox option \<Rightarrow> real
     \<Rightarrow> search_report" where
  "a_star_search lib start target boundary zones d b res =
     (case snap_to_boundary lib boundary start of
        Inl e \<Rightarrow> \<lparr>returned = Some (Inl e), iterations_run = 0, visited_nodes = {}\<rparr>
      | Inr start' \<Rightarrow>
          case snap_to_boundary lib boundary target of
            Inl e \<Rightarrow> \<lparr>returned = Some (Inl e), iterations_run = 0, visited_nodes = {}\<rparr>
          | Inr goal' \<Rightarrow>
              a_star_loop
                \<lparr>env_lib = lib, env_boundary = boundary, env_zones = zones,
                   env_dem = d, env_bounds = b, env_resolution = res,
                   env_grid_size = grid_size_of res, env_goal = goal'\<rparr>
                0 {}
                \<lparr>open_set = [(Fin 0, start')],
                   came_from = Map.empty,
                   g_score = [start' \<mapsto> Fin 0],
                   f_score = [start' \<mapsto> Fin (heuristic start' goal')]\<rparr>)"

definition a_star_pathfinding ::
  "'g shapely \<Rightarrow> point \<Rightarrow> point \<Rightarrow> 'g \<Rightarrow> 'g list \<Rightarrow> ndarray option \<Rightarrow> bbox option \<Rightarrow> real
     \<Rightarrow> (py_error + point list option) option" where
  "a_star_pathfinding lib start target boundary zones d b res =
     returned (a_star_search lib start target boundary zones d b res)"

text \<open>\<open>generate_road_network\<close>. Its first loop searches a path to each asset and records the
  paths found; \<open>road_network\<close> is the list the second loop fills, and is still empty while the
  first loop runs.\<close>

record placed_asset =
  asset_x :: real
  asset_y :: real
  asset_id :: "string option"

record road_segment =
  segment_type :: string
  segment_path :: "point list"
  segment_asset_id :: "string option"
  segment_width :: real

record road =
  road_type :: string
  centerline :: "point list"
  right_of_way :: "point list"
  width :: real
  road_length :: real

record road_network_result =
  roads :: "road list"
  total_length :: real
  network_entry_point :: point
  warning :: "string option"

fun collect_road_segments ::
  "'g shapely \<Rightarrow> point \<Rightarrow> 'g \<Rightarrow> 'g list \<Rightarrow> ndarray option \<Rightarrow> bbox option \<Rightarrow> real
     \<Rightarrow> placed_asset list \<Rightarrow> road list \<Rightarrow> road_segment list
     \<Rightarrow> (py_error + road_segment list) option" where
  "collect_road_segments lib entry_point boundary zones d b res [] road_network road_segments =
     Some (Inr road_segments)"
| "collect_road_segments lib entry_point boundary zones d b res (asset # rest) road_network
       road_segments =
     (let asset_location = (asset_x asset, asset_y asset)
      in case a_star_pathfinding lib entry_point asset_location boundary zones d b res of
           None \<Rightarrow> None
         | Some (Inl e) \<Rightarrow> Some (Inl e)
         | Some (Inr None) \<Rightarrow>
             collect_road_segments lib entry_point boundary zones d b res rest road_network
               road_segments
         | Some (Inr (Some path)) \<Rightarrow>
             if path \<noteq> [] then
               collect_road_segments lib entry_point boundary zones d b res rest road_network
                 (road_segments @
                  [\<lparr>segment_type = (if length road_network = 0 then ''access'' else ''secondary''),
                    segment_path = path,
                    segment_asset_id = asset_id asset,
                    segment_width = (if length road_network = 0 then min_width_access
                                     else min_width_secondary)\<rparr>])
             else
               collect_road_segments lib entry_point boundary zones d b res rest road_network
                 road_segments)"

text \<open>\<open>_optimize_road_network\<close>: a segment whose path was seen before is dropped.\<close>

fun optimize_road_network :: "road_segment list \<Rightarrow> point list list \<Rightarrow> road_segment list" where
  "optimize_road_network [] seen_paths = []"
| "optimize_road_network (segment # rest) seen_paths =
     (if segment_path segment \<notin> set seen_paths
      then segment # optimize_road_network rest (seen_paths @ [segment_path segment])
      else optimize_road_network rest seen_paths)"

text \<open>The second loop. \<open>draw path distance\<close> stands for the shapely calls made for one
  segment (the \<open>LineString\<close> of the path, its buffer by the distance, their coordinates and the
  length): the centerline, the right of way and the length, or \<open>None\<close> when a call raises and
  the loop goes on to the next segment.\<close>

fun build_roads ::
  "(point list \<Rightarrow> real \<Rightarrow> (point list \<times> point list \<times> real) option)
     \<Rightarrow> road_segment list \<Rightarrow> road list \<Rightarrow> road list" where
  "build_roads draw [] road_network = road_network"
| "build_roads draw (segment # rest) road_network =
     (if length (segment_path segment) < 2 then build_roads draw rest road_network
      else
        case draw (segment_path segment) (segment_width segment * FEET_TO_DEGREES / 2) of
          None \<Rightarrow> build_roads draw rest road_network
        | Some (line, corridor, len) \<Rightarrow>
            build_roads draw rest
              (road_network @
               [\<lparr>road_type = segment_type segment, centerline = line, right_of_way = corridor,
                 width = segment_width segment, road_length = len\<rparr>]))"

definition generate_road_network ::
  "'g shapely \<Rightarrow> (point list \<Rightarrow> real \<Rightarrow> (point list \<times> point list \<times> real) option)
     \<Rightarrow> point \<Rightarrow> placed_asset list \<Rightarrow> 'g \<Rightarrow> 'g list \<Rightarrow> ndarray option \<Rightarrow> bbox option \<Rightarrow> real
     \<Rightarrow> (py_error + road_network_result) option" where
  "generate_road_network lib draw entry_point assets boundary zones d b res =
     (let road_network = []
      in case collect_road_segments lib entry_point boundary zones d b res assets road_network [] of
           None \<Rightarrow> None
         | Some (Inl e) \<Rightarrow> Some (Inl e)
         | Some (Inr road_segments) \<Rightarrow>
             let optimized_segments = optimize_road_network road_segments [];
                 road_network' = build_roads draw optimized_segments road_network
             in if length road_network' = 0 then
                  Some (Inr \<lparr>roads = [], total_length = 0, network_entry_point = entry_point,
                              warning = Some ''No roads could be generated. Check that entry point and assets are within property boundary.''\<rparr>)
                else
                  Some (Inr \<lparr>roads = road_network',
                              total_length = sum_list (map road_length road_network'),
                              network_entry_point = entry_point,
                              warning = None\<rparr>))"

text \<open>Two notions for reasoning about the search. The walk along the back-pointers from a
  node ends; and what holds of the state each time the main loop is entered: every node of
  the open set has a g-score, a node and its back-pointer both have g-scores and the
  back-pointer's is not the greater one, and every walk along the back-pointers ends.\<close>

inductive walk_ends :: "(point \<rightharpoonup> point) \<Rightarrow> point \<Rightarrow> bool" for came where
  at_root: "came n = None \<Longrightarrow> walk_ends came n"
| via: "came n = Some c \<Longrightarrow> walk_ends came c \<Longrightarrow> walk_ends came n"

definition scores_ordered :: "astar_state \<Rightarrow> bool" where
  "scores_ordered st =
     (\<forall>n c. came_from st n = Some c \<longrightarrow>
        (\<exists>gn gc. g_score st n = Some gn \<and> g_score st c = Some gc \<and> \<not> xless gn gc))"

definition search_inv :: "astar_state \<Rightarrow> bool" where
  "search_inv st =
     ((\<forall>item \<in> set (open_set st). snd item \<in> dom (g_score st))
      \<and> scores_ordered st
      \<and> (\<forall>n. walk_ends (came_from st) n))"

section \<open>Theorems\<close>

subsection \<open>The cache cannot tell a stored None from a miss\<close>

lemma get_cached_missing: "c key = None \<Longrightarrow> fst (get_cached c now key) = None"
  by (simp add: get_cached_def)


lemma get_cached_stored_none:
  "c key = Some e \<Longrightarrow> entry_value e = None \<Longrightarrow> fst (get_cached c now key) = None"
  by (simp add: get_cached_def)

lemma cached_miss:
  assumes "fst (get_cached (memo_cache st) t1 (keyfn args)) = None"
  shows "cached ttl keyfn func st (t1, t2, t3) args =
           (func args,
            \<lparr>memo_cache = set_cached (snd (get_cached (memo_cache st) t1 (keyfn args))) t2 t3 (keyfn args) (func args) ttl,
             executions = executions st + 1\<rparr>)"
  using assms by (cases "get_cached (memo_cache st) t1 (keyfn args)") (simp add: cached_def Let_def)

lemma get_cached_after_set_none:
  "fst (get_cached (set_cached c n1 n2 key None ttl) now key) = None"
  by (simp add: get_cached_def set_cached_def)

text \<open>
  Claim C10. \<open>get_cached\<close> answers \<open>None\<close> when the key has no entry, and equally when an
  unexpired entry stores the value \<open>None\<close> (the cache is then left as it was). So when the
  wrapped function returns \<open>None\<close> and the lookup gave \<open>None\<close>, the wrapper built by \<open>cached\<close>
  executes the function, stores the \<open>None\<close>, and on the next call, whatever the clock says,
  executes it again and stores the result again.
\<close>

theorem cached_none_is_a_miss:
  "(c key = None \<longrightarrow> fst (get_cached c now key) = None)
   \<and> (c key = Some e \<and> now < expires_at e \<and> entry_value e = None \<longrightarrow>
        get_cached c now key = (None, c))
   \<and> (func args = None \<and> fst (get_cached (memo_cache st) t1 (keyfn args)) = None \<longrightarrow>
        (let (r1, st1) = cached ttl keyfn func st (t1, t2, t3) args;
             (r2, st2) = cached ttl keyfn func st1 (t4, t5, t6) args
         in r1 = None \<and> r2 = None
            \<and> executions st1 = executions st + 1
            \<and> executions st2 = executions st + 2
            \<and> map_option entry_value (memo_cache st2 (keyfn args)) = Some None
            \<and> map_option expires_at (memo_cache st2 (keyfn args)) = Some (t5 + ttl)))"
proof (intro conjI impI)
  assume "c key = None"
  then show "fst (get_cached c now key) = None" by (rule get_cached_missing)
next
  assume "c key = Some e \<and> now < expires_at e \<and> entry_value e = None"
  then show "get_cached c now key = (None, c)" by (simp add: get_cached_def)
next
  assume h: "func args = None \<and> fst (get_cached (memo_cache st) t1 (keyfn args)) = None"
  let ?c1 = "set_cached (snd (get_cached (memo_cache st) t1 (keyfn args))) t2 t3 (keyfn args) None ttl"
  let ?st1 = "\<lparr>memo_cache = ?c1, executions = executions st + 1\<rparr>"
  have first: "cached ttl keyfn func st (t1, t2, t3) args = (None, ?st1)"
    using h cached_miss [of st t1 keyfn args ttl func t2 t3] by simp
  have miss2: "fst (get_cached (memo_cache ?st1) t4 (keyfn args)) = None"
    by (simp add: get_cached_after_set_none)
  have second: "cached ttl keyfn func ?st1 (t4, t5, t6) args =
      (None, \<lparr>memo_cache = set_cached (snd (get_cached ?c1 t4 (keyfn args))) t5 t6 (keyfn args) None ttl,
              executions = executions st + 2\<rparr>)"
    using h cached_miss [of ?st1 t4 keyfn args ttl func t5 t6] miss2 by simp
  show "let (r1, st1) = cached ttl keyfn func st (t1, t2, t3) args;
             (r2, st2) = cached ttl keyfn func st1 (t4, t5, t6) args
         in r1 = None \<and> r2 = None
            \<and> executions st1 = executions st + 1
            \<and> executions st2 = executions st + 2
            \<and> map_option entry_value (memo_cache st2 (keyfn args)) = Some None
            \<and> map_option expires_at (memo_cache st2 (keyfn args)) = Some (t5 + ttl)"
    by (simp only: first Let_def prod.case second) (simp add: set_cached_def)
qed

theorem cached_none_is_a_miss_witness:
  "fst (get_cached (Map.empty :: nat cache) 0 ''k'') = None
   \<and> get_cached [''k'' \<mapsto> \<lparr>entry_value = (None :: nat option), expires_at = 10, created_at = 0\<rparr>] 5 ''k''
       = (None, [''k'' \<mapsto> \<lparr>entry_value = None, expires_at = 10, created_at = 0\<rparr>])
   \<and> executions (snd (cached 3600 (\<lambda>n. ''k'') (\<lambda>n :: nat. (None :: nat option))
        (snd (cached 3600 (\<lambda>n. ''k'') (\<lambda>n :: nat. (None :: nat option)) \<lparr>memo_cache = Map.empty, executions = 0\<rparr> (0, 0, 0) 7))
        (1, 1, 1) 7)) = 2"
  using cached_none_is_a_miss [of "Map.empty :: nat cache" "''k''" 0
      "\<lparr>entry_value = (None :: nat option), expires_at = 10, created_at = 0\<rparr>"
      "\<lambda>n :: nat. (None :: nat option)" 7 "\<lparr>memo_cache = Map.empty, executions = 0\<rparr>" 0 "\<lambda>n. ''k''" 3600 0 0 1 1 1]
    cached_none_is_a_miss [of "[''k'' \<mapsto> \<lparr>entry_value = (None :: nat option), expires_at = 10, created_at = 0\<rparr>]" "''k''" 5
      "\<lparr>entry_value = (None :: nat option), expires_at = 10, created_at = 0\<rparr>"
      "\<lambda>n :: nat. (None :: nat option)" 7 "\<lparr>memo_cache = Map.empty, executions = 0\<rparr>" 0 "\<lambda>n. ''k''" 3600 0 0 1 1 1]
  by (simp add: get_cached_def split: prod.splits)

subsection \<open>The optimize handler's result cache is bounded\<close>

lemma length_dict_set: "length (dict_set d k v) \<le> Suc (length d)"
  by (induction d k v rule: dict_set.induct) auto

lemma dict_set_fresh: "map_of d k = None \<Longrightarrow> dict_set d k v = d @ [(k, v)]"
  by (induction d k v rule: dict_set.induct) (auto split: if_splits)

lemma length_dict_del_head: "length (dict_del ((k, v) # d) k) \<le> length d"
  by (simp add: dict_del_def)

lemma dict_del_head_distinct:
  "distinct (map fst ((k, v) # d)) \<Longrightarrow> dict_del ((k, v) # d) k = d"
  by (auto simp: dict_del_def filter_id_conv rev_image_eqI)

lemma optimize_layout_bounded:
  assumes b: "length (request_results st) \<le> 10"
  shows "length (request_results (snd (optimize_layout st h outcome))) \<le> 10"
proof (cases outcome)
  case (Inl e)
  then show ?thesis
    using b by (simp add: optimize_layout_def Let_def split: option.splits)
next
  case (Inr r)
  let ?results = "dict_set (request_results st) h r"
  have len: "length ?results \<le> 11"
    using length_dict_set [of "request_results st" h r] b by simp
  have "length (dict_del ((k, v) # d) k) \<le> 10" if "?results = (k, v) # d" for k v d
    using length_dict_del_head [of k v d] len that by simp
  then show ?thesis
    using b Inr
    by (auto simp: optimize_layout_def Let_def split: option.splits list.splits)
qed

lemma serve_bounded:
  "length (request_results st) \<le> 10 \<Longrightarrow> length (request_results (serve st reqs)) \<le> 10"
  by (induction st reqs rule: serve.induct) (auto simp: optimize_layout_bounded)

lemma optimize_layout_fifo:
  assumes "distinct (map fst (request_results st))" "length (request_results st) = 10"
    "map_of (request_results st) h = None" "h \<notin> pending_requests st"
  shows "request_results (snd (optimize_layout st h (Inr r))) = tl (request_results st) @ [(h, r)]"
proof -
  obtain k v d where d: "request_results st = (k, v) # d"
    using assms(2) by (cases "request_results st") auto
  have "dict_set (request_results st) h r = (k, v) # (d @ [(h, r)])"
    using dict_set_fresh [OF assms(3)] d by simp
  moreover have "h \<noteq> k" "h \<notin> fst ` set d"
    using assms(3) d by (auto simp: map_of_eq_None_iff split: if_splits)
  then have "distinct (map fst ((k, v) # (d @ [(h, r)])))"
    using assms(1) d by auto
  then have "dict_del ((k, v) # (d @ [(h, r)])) k = d @ [(h, r)]"
    by (rule dict_del_head_distinct)
  ultimately show ?thesis
    using assms d by (simp add: optimize_layout_def Let_def)
qed

text \<open>
  Claim C6. From the empty handler state, after any list of requests the completed-result dict
  holds at most 10 entries, and each single call keeps that bound. When an eleventh, new hash is
  stored, the entry dropped is the first one in insertion order and the new one goes last (FIFO).
  The other stores do not evict by size: \<open>set_cached\<close> only adds its key, and
  \<open>check_rate_limit\<close> never removes a key of its store.
\<close>

theorem optimize_result_cache_bounded:
  "length (request_results (serve initial_state reqs)) \<le> 10
   \<and> (length (request_results st) \<le> 10 \<longrightarrow>
        length (request_results (snd (optimize_layout st h outcome))) \<le> 10)
   \<and> (distinct (map fst (request_results st)) \<and> length (request_results st) = 10
        \<and> map_of (request_results st) h = None \<and> h \<notin> pending_requests st \<longrightarrow>
        request_results (snd (optimize_layout st h (Inr r))) = tl (request_results st) @ [(h, r)])
   \<and> dom (set_cached c now1 now2 key v ttl) = insert key (dom c)
   \<and> dom store \<subseteq> dom (snd (check_rate_limit store now request))"
proof (intro conjI impI)
  show "length (request_results (serve initial_state reqs)) \<le> 10"
    by (rule serve_bounded) (simp add: initial_state_def)
  show "dom (set_cached c now1 now2 key v ttl) = insert key (dom c)"
    by (simp add: set_cached_def)
  show "dom store \<subseteq> dom (snd (check_rate_limit store now request))"
    by (auto simp: check_rate_limit_def Let_def split: option.splits)
qed (auto simp: optimize_layout_bounded optimize_layout_fifo)

theorem optimize_result_cache_bounded_witness:
  "request_results (snd (optimize_layout
      \<lparr>pending_requests = {}, request_results = [(''a'', 0), (''b'', 1), (''c'', 2), (''d'', 3), (''e'', 4),
        (''f'', 5), (''g'', 6), (''h'', 7), (''i'', 8), (''j'', 9 :: nat)]\<rparr> ''k'' (Inr 10)))
     = [(''b'', 1), (''c'', 2), (''d'', 3), (''e'', 4), (''f'', 5), (''g'', 6), (''h'', 7),
        (''i'', 8), (''j'', 9), (''k'', 10)]
   \<and> length (request_results (snd (optimize_layout
      \<lparr>pending_requests = {}, request_results = [(''a'', 0), (''b'', 1), (''c'', 2), (''d'', 3), (''e'', 4),
        (''f'', 5), (''g'', 6), (''h'', 7), (''i'', 8), (''j'', 9 :: nat)]\<rparr> ''k'' (Inr 10)))) \<le> 10"
  using optimize_result_cache_bounded [of "[]"
      "\<lparr>pending_requests = {}, request_results = [(''a'', 0), (''b'', 1), (''c'', 2), (''d'', 3), (''e'', 4),
        (''f'', 5), (''g'', 6), (''h'', 7), (''i'', 8), (''j'', 9 :: nat)]\<rparr>"
      "''k''" "Inr 10" 10 "Map.empty :: nat cache" 0 0 "''x''" None 0 Map.empty 0
      "\<lparr>url_path = ''/'', client_host = None\<rparr>"]
  by auto

subsection \<open>The sliding window of the rate limiter\<close>

lemma check_rate_limit_upload:
  assumes "find_limit RATE_LIMITS (url_path request) = Some \<lparr>max_requests = 5, window_seconds = 60\<rparr>"
  shows "check_rate_limit store now request =
     (let pruned = filter (\<lambda>t. t > now - 60) (stored_requests store request)
      in if length pruned \<ge> 5
         then (False, store(request_key request \<mapsto>
                 \<lparr>requests = pruned,
                  window_start = (case store (request_key request) of Some e \<Rightarrow> window_start e | None \<Rightarrow> now)\<rparr>))
         else (True, store(request_key request \<mapsto>
                 \<lparr>requests = pruned @ [now],
                  window_start = (case store (request_key request) of Some e \<Rightarrow> window_start e | None \<Rightarrow> now)\<rparr>)))"
  using assms
  by (auto simp: check_rate_limit_def stored_requests_def Let_def split: option.splits)

lemma stored_after_check:
  assumes "find_limit RATE_LIMITS (url_path request) = Some \<lparr>max_requests = 5, window_seconds = 60\<rparr>"
  shows "stored_requests (snd (check_rate_limit store now request)) request =
     (let pruned = filter (\<lambda>t. t > now - 60) (stored_requests store request)
      in if length pruned \<ge> 5 then pruned else pruned @ [now])"
  by (simp add: check_rate_limit_upload [OF assms] Let_def) (simp add: stored_requests_def)

lemma admitted_subset: "set (admitted store request nows) \<subseteq> set nows"
  by (induction store request nows rule: admitted.induct) (auto split: prod.splits if_splits)

lemma in_window_old:
  assumes "\<forall>t \<in> set xs. now \<le> t" "a + 60 \<le> now"
  shows "in_window a xs = 0"
  using assms by (auto simp: in_window_def filter_empty_conv)

lemma in_window_pruned:
  assumes "now < a + 60"
  shows "in_window a (filter (\<lambda>t. t > now - 60) xs) = in_window a xs"
proof -
  have "filter (\<lambda>t. a \<le> t \<and> t < a + 60) (filter (\<lambda>t. t > now - 60) xs)
        = filter (\<lambda>t. a \<le> t \<and> t < a + 60) xs"
    using assms by (auto intro!: filter_cong)
  then show ?thesis by (simp add: in_window_def)
qed

lemma in_window_append: "in_window a (xs @ ys) = in_window a xs + in_window a ys"
  by (simp add: in_window_def)

lemma in_window_le_length: "in_window a xs \<le> length xs"
  by (simp add: in_window_def)

lemma in_window_filter_le: "in_window a (filter P xs) \<le> in_window a xs"
  by (induction xs) (auto simp: in_window_def)

lemma window_invariant:
  assumes up: "find_limit RATE_LIMITS (url_path request) = Some \<lparr>max_requests = 5, window_seconds = 60\<rparr>"
  shows "sorted nows \<Longrightarrow> \<forall>a. in_window a (stored_requests store request) \<le> 5 \<Longrightarrow>
         in_window a (stored_requests store request @ admitted store request nows) \<le> 5"
proof (induction nows arbitrary: store a)
  case Nil
  then show ?case by simp
next
  case (Cons now later)
  let ?R = "stored_requests store request"
  let ?pruned = "filter (\<lambda>t. t > now - 60) ?R"
  let ?store' = "snd (check_rate_limit store now request)"
  let ?ok = "fst (check_rate_limit store now request)"
  let ?R' = "stored_requests ?store' request"
  let ?A = "admitted ?store' request later"
  have sorted: "sorted later" and later: "\<forall>t \<in> set later. now \<le> t"
    using Cons.prems(1) by auto
  have A_later: "\<forall>t \<in> set ?A. now \<le> t"
    using admitted_subset [of ?store' request later] later by auto
  have R': "?R' = (if length ?pruned \<ge> 5 then ?pruned else ?pruned @ [now])"
    using stored_after_check [OF up, of store now] by (simp add: Let_def)
  have ok: "?ok = (\<not> length ?pruned \<ge> 5)"
    by (simp add: check_rate_limit_upload [OF up] Let_def)
  have inv': "\<forall>b. in_window b ?R' \<le> 5"
  proof
    fix b
    have le: "in_window b ?pruned \<le> 5"
      using in_window_filter_le [of b "\<lambda>t. t > now - 60" ?R] Cons.prems(2) by (meson order_trans)
    show "in_window b ?R' \<le> 5"
    proof (cases "length ?pruned \<ge> 5")
      case True
      then show ?thesis using R' le by simp
    next
      case False
      then have "in_window b ?pruned \<le> 4"
        using in_window_le_length [of b ?pruned] by simp
      moreover have "in_window b [now] \<le> 1" by (simp add: in_window_def)
      ultimately show ?thesis using R' False le by (simp add: in_window_append)
    qed
  qed
  have ih: "in_window a (?R' @ ?A) \<le> 5"
    using Cons.IH [OF sorted inv'] .
  have adm: "admitted store request (now # later) = (if ?ok then [now] else []) @ ?A"
    by (simp split: prod.splits)
  have new_eq: "?R' @ ?A = ?pruned @ (if ?ok then [now] else []) @ ?A"
    using R' ok by simp
  show ?case
  proof (cases "now < a + 60")
    case True
    have "in_window a (?R @ admitted store request (now # later))
          = in_window a ?R + in_window a ((if ?ok then [now] else []) @ ?A)"
      by (simp only: adm in_window_append)
    also have "\<dots> = in_window a ?pruned + in_window a ((if ?ok then [now] else []) @ ?A)"
      by (simp only: in_window_pruned [OF True])
    also have "\<dots> = in_window a (?R' @ ?A)"
      by (simp only: new_eq in_window_append)
    finally show ?thesis using ih by simp
  next
    case False
    then have old: "a + 60 \<le> now" by simp
    have "\<forall>t \<in> set ((if ?ok then [now] else []) @ ?A). now \<le> t"
      using A_later by auto
    then have "in_window a ((if ?ok then [now] else []) @ ?A) = 0"
      using old by (rule in_window_old)
    then have "in_window a (?R @ admitted store request (now # later)) = in_window a ?R"
      by (simp only: adm in_window_append)
    then show ?thesis using Cons.prems(2) by simp
  qed
qed

text \<open>
  Claim C5. For a path whose first matching rule is the one of \<open>/upload\<close> (5 requests per 60
  seconds) and a clock that never runs backwards: whatever calls one client makes, starting
  from a store that has no entry for it, no window of 60 seconds (closed at its start, open at
  its end) holds more than 5 admitted calls. A call is rejected exactly when at least 5 stored
  timestamps are younger than 60 seconds, the middleware then answers 429, and a call made
  when every stored timestamp is at least 60 seconds old is admitted.
\<close>

theorem upload_rate_limit_window:
  "find_limit RATE_LIMITS (url_path request) = Some \<lparr>max_requests = 5, window_seconds = 60\<rparr> \<longrightarrow>
     (sorted nows \<and> store (request_key request) = None \<longrightarrow>
        in_window a (admitted store request nows) \<le> 5)
     \<and> (\<not> fst (check_rate_limit store now request) \<longleftrightarrow>
          5 \<le> length (filter (\<lambda>t. t > now - 60) (stored_requests store request)))
     \<and> (\<not> fst (check_rate_limit store now request) \<longrightarrow>
          fst (rate_limit_middleware store now request status) = 429)
     \<and> ((\<forall>t \<in> set (stored_requests store request). t + 60 \<le> now) \<longrightarrow>
          fst (check_rate_limit store now request))"
proof (intro impI conjI)
  assume up: "find_limit RATE_LIMITS (url_path request) = Some \<lparr>max_requests = 5, window_seconds = 60\<rparr>"
  show "in_window a (admitted store request nows) \<le> 5"
    if "sorted nows \<and> store (request_key request) = None"
  proof -
    have "stored_requests store request = []"
      using that by (simp add: stored_requests_def)
    moreover have "\<forall>b. in_window b (stored_requests store request) \<le> 5"
      using calculation by (simp add: in_window_def)
    ultimately show ?thesis
      using window_invariant [OF up, of nows store a] that by simp
  qed
  show "(\<not> fst (check_rate_limit store now request)) =
        (5 \<le> length (filter (\<lambda>t. t > now - 60) (stored_requests store request)))"
    by (simp add: check_rate_limit_upload [OF up] Let_def)
  show "fst (rate_limit_middleware store now request status) = 429"
    if "\<not> fst (check_rate_limit store now request)"
    using that by (cases "check_rate_limit store now request") (simp add: rate_limit_middleware_def)
  show "fst (check_rate_limit store now request)"
    if "\<forall>t \<in> set (stored_requests store request). t + 60 \<le> now"
  proof -
    have "filter (\<lambda>t. t > now - 60) (stored_requests store request) = []"
      using that by (auto simp: filter_empty_conv)
    then show ?thesis by (simp add: check_rate_limit_upload [OF up] Let_def)
  qed
qed

lemma upload_path_rule:
  "find_limit RATE_LIMITS ''/api/upload'' = Some \<lparr>max_requests = 5, window_seconds = 60\<rparr>"
  by (simp add: RATE_LIMITS_def)

theorem upload_rate_limit_window_witness:
  "admitted Map.empty \<lparr>url_path = ''/api/upload'', client_host = Some ''10.0.0.7''\<rparr> [0, 1, 2, 3, 4, 5, 60]
     = [0, 1, 2, 3, 4, 60]
   \<and> in_window 0 (admitted Map.empty \<lparr>url_path = ''/api/upload'', client_host = Some ''10.0.0.7''\<rparr>
        [0, 1, 2, 3, 4, 5, 60]) \<le> 5
   \<and> fst (check_rate_limit Map.empty 7 \<lparr>url_path = ''/api/upload'', client_host = Some ''10.0.0.7''\<rparr>)"
proof -
  let ?r = "\<lparr>url_path = ''/api/upload'', client_host = Some ''10.0.0.7''\<rparr>"
  have up: "find_limit RATE_LIMITS (url_path ?r) = Some \<lparr>max_requests = 5, window_seconds = 60\<rparr>"
    using upload_path_rule by simp
  have run: "admitted Map.empty ?r [0, 1, 2, 3, 4, 5, 60] = [0, 1, 2, 3, 4, 60]"
    by (simp add: check_rate_limit_upload [OF up] stored_requests_def Let_def)
  have "sorted [0, 1, 2, 3, 4, 5, 60 :: real] \<and> Map.empty (request_key ?r) = None" by simp
  moreover have "\<forall>t \<in> set (stored_requests Map.empty ?r). t + 60 \<le> 7"
    by (simp add: stored_requests_def)
  ultimately show ?thesis
    using upload_rate_limit_window [of ?r "[0, 1, 2, 3, 4, 5, 60]" Map.empty 0 7 200] up run
    by simp
qed

subsection \<open>Terrain suitability score\<close>

lemma getitem_in_range:
  "0 \<le> i \<Longrightarrow> i < int (shape0 a) \<Longrightarrow> 0 \<le> j \<Longrightarrow> j < int (shape1 a) \<Longrightarrow>
   getitem a i j = Inr (cells a (nat i) (nat j))"
  by (simp add: getitem_def wrap_index_def)

lemma combined_score_bounds:
  fixes s a :: real
  assumes "0 \<le> s" "0 \<le> a" "a \<le> 360"
  shows "0 \<le> 0.8 * (if s > 15 then 0 else 1 - s / 15) + 0.2 * (1 - \<bar>a - 180\<bar> / 180)"
    and "0.8 * (if s > 15 then 0 else 1 - s / 15) + 0.2 * (1 - \<bar>a - 180\<bar> / 180) \<le> 1"
    and "s > 15 \<Longrightarrow> 0.8 * (if s > 15 then 0 else 1 - s / 15) + 0.2 * (1 - \<bar>a - 180\<bar> / 180) \<le> 0.2"
  using assms by (auto simp: abs_if field_simps)

text \<open>
  Claim C3. For a nonzero resolution, slope and aspect rasters of one shape, slopes that are
  not negative and aspects in [0, 360]: the score is a value in [0, 1]. It is 0 when the point
  is outside the bounding box or its cell is outside the raster. Otherwise it is
  0.8 * slope score + 0.2 * aspect score, where the slope score is 1 - slope / 15 up to 15
  degrees and 0 above, and the aspect score is 1 - d / 180 for the angular distance d of the
  aspect to 180 degrees; with a slope above 15 degrees it is at most 0.2.
\<close>

theorem terrain_suitability_score_bounds:
  assumes res: "resolution \<noteq> 0"
    and shape: "shape0 aspect = shape0 slope \<and> shape1 aspect = shape1 slope"
    and vals: "\<forall>i < shape0 slope. \<forall>j < shape1 slope.
                 0 \<le> cells slope i j \<and> 0 \<le> cells aspect i j \<and> cells aspect i j \<le> 360"
  shows "\<exists>score. get_terrain_suitability_score (x, y) slope aspect dem (minx, miny, maxx, maxy) resolution
                  = Inr score
           \<and> 0 \<le> score \<and> score \<le> 1
           \<and> (let i = py_int ((y - miny) / resolution); j = py_int ((x - minx) / resolution)
              in if \<not> (minx \<le> x \<and> x \<le> maxx \<and> miny \<le> y \<and> y \<le> maxy)
                    \<or> i < 0 \<or> int (shape0 slope) \<le> i \<or> j < 0 \<or> int (shape1 slope) \<le> j
                 then score = 0
                 else
                   let point_slope = cells slope (nat i) (nat j);
                       point_aspect = cells aspect (nat i) (nat j);
                       slope_score = (if point_slope \<le> 15 then 1 - point_slope / 15 else 0);
                       aspect_score = 1 - min \<bar>point_aspect - 180\<bar> (360 - \<bar>point_aspect - 180\<bar>) / 180
                   in score = 0.8 * slope_score + 0.2 * aspect_score
                      \<and> (point_slope > 15 \<longrightarrow> score \<le> 0.2))"
proof -
  let ?i = "py_int ((y - miny) / resolution)"
  let ?j = "py_int ((x - minx) / resolution)"
  show ?thesis
  proof (cases "\<not> (minx \<le> x \<and> x \<le> maxx \<and> miny \<le> y \<and> y \<le> maxy)
                \<or> ?i < 0 \<or> int (shape0 slope) \<le> ?i \<or> ?j < 0 \<or> int (shape1 slope) \<le> ?j")
    case True
    then show ?thesis
      using res by (auto simp: get_terrain_suitability_score_def Let_def)
  next
    case False
    then have box: "minx \<le> x \<and> x \<le> maxx \<and> miny \<le> y \<and> y \<le> maxy"
      and i: "0 \<le> ?i" "?i < int (shape0 slope)" and j: "0 \<le> ?j" "?j < int (shape1 slope)"
      by auto
    let ?s = "cells slope (nat ?i) (nat ?j)"
    let ?a = "cells aspect (nat ?i) (nat ?j)"
    have gs: "getitem slope ?i ?j = Inr ?s"
      using i j by (rule getitem_in_range)
    have ga: "getitem aspect ?i ?j = Inr ?a"
      using i j shape by (intro getitem_in_range) simp_all
    have "nat ?i < shape0 slope" "nat ?j < shape1 slope"
      using i j by auto
    then have v: "0 \<le> ?s" "0 \<le> ?a" "?a \<le> 360"
      using vals by auto
    have wrap: "min \<bar>?a - 180\<bar> (360 - \<bar>?a - 180\<bar>) = \<bar>?a - 180\<bar>"
      using v by (auto simp: abs_if min_def)
    have nowrap: "\<not> \<bar>?a - 180\<bar> > 180"
      using v by (auto simp: abs_if)
    have eq: "get_terrain_suitability_score (x, y) slope aspect dem (minx, miny, maxx, maxy) resolution
              = Inr (0.8 * (if ?s > 15 then 0 else 1 - ?s / 15) + 0.2 * (1 - \<bar>?a - 180\<bar> / 180))"
      using box res i j nowrap
      by (simp add: get_terrain_suitability_score_def Let_def gs ga)
    show ?thesis
      unfolding eq using False combined_score_bounds [OF v] wrap
      by (auto simp: Let_def)
  qed
qed

theorem terrain_suitability_score_bounds_witness:
  "get_terrain_suitability_score (5, 15) (np_full 2 2 3) (np_full 2 2 180) (np_full 2 2 100) (0, 0, 20, 20) 10
     = Inr 0.84
   \<and> get_terrain_suitability_score (5, 15) (np_full 2 2 30) (np_full 2 2 90) (np_full 2 2 100) (0, 0, 20, 20) 10
     = Inr 0.1
   \<and> get_terrain_suitability_score (25, 15) (np_full 2 2 3) (np_full 2 2 180) (np_full 2 2 100) (0, 0, 20, 20) 10
     = Inr 0"
proof -
  have a: "(10 :: real) \<noteq> 0" by simp
  have "shape0 (np_full 2 2 180) = shape0 (np_full 2 2 3) \<and> shape1 (np_full 2 2 180) = shape1 (np_full 2 2 3)"
    by (simp add: np_full_def)
  moreover have "\<forall>i < shape0 (np_full 2 2 3). \<forall>j < shape1 (np_full 2 2 3).
      0 \<le> cells (np_full 2 2 3) i j \<and> 0 \<le> cells (np_full 2 2 180) i j \<and> cells (np_full 2 2 180) i j \<le> 360"
    by (simp add: np_full_def)
  ultimately have "\<exists>score. get_terrain_suitability_score (5, 15) (np_full 2 2 3) (np_full 2 2 180) (np_full 2 2 100) (0, 0, 20, 20) 10
                  = Inr score \<and> 0 \<le> score \<and> score \<le> 1"
    using terrain_suitability_score_bounds [OF a, of "np_full 2 2 180" "np_full 2 2 3" 5 15 "np_full 2 2 100" 0 0 20 20]
    by blast
  then show ?thesis
    by (simp add: get_terrain_suitability_score_def getitem_def wrap_index_def np_full_def py_int_def Let_def)
qed

subsection \<open>Labels of the cut/fill visualization\<close>

lemma visualization_cell:
  assumes "shape0 f = shape0 c" "shape1 f = shape1 c" "i < shape0 c" "j < shape1 c"
  shows "generate_visualization_map c f b = Inr r \<Longrightarrow>
         cells (visualization r) i j =
           (if \<bar>cells c i j - cells f i j\<bar> < 0.1 then 3
            else if cells f i j > 0 then 2
            else if cells c i j > 0 then 1 else 0)"
  using assms
  by (auto simp: generate_visualization_map_def masked_assign_def zeros_like_def np_full_def Let_def)

lemma visualization_returns:
  "shape0 f = shape0 c \<Longrightarrow> shape1 f = shape1 c \<Longrightarrow> \<exists>r. generate_visualization_map c f b = Inr r"
  by (simp add: generate_visualization_map_def Let_def)

lemma visualization_shape:
  "generate_visualization_map c f b = Inr r \<Longrightarrow>
   shape0 (visualization r) = shape0 c \<and> shape1 (visualization r) = shape1 c"
  by (auto simp: generate_visualization_map_def masked_assign_def zeros_like_def np_full_def Let_def
           split: if_splits)

text \<open>
  Claim C9, as stated, fails: a cell whose cut entry is negative and whose fill entry is 0 is
  neither a cut area nor a fill area nor balanced, and keeps the label 0.
\<close>

theorem visualization_zero_counterexample:
  "map_sum id (\<lambda>r. cells (visualization r) 0 0)
     (generate_visualization_map (np_full 1 1 (- 1)) (np_full 1 1 0) (0, 0, 1, 1)) = Inr 0"
  by (simp add: generate_visualization_map_def masked_assign_def zeros_like_def np_full_def Let_def)

text \<open>
  Claim C9, amended. For cut and fill rasters of one shape whose entries are not negative (as
  \<open>calculate_volumes\<close> produces them), the map is returned with that shape, every cell where
  cut and fill are both 0 is labelled 3, and every cell carries one of the labels 1, 2, 3: the
  label 0 does not occur.
\<close>

theorem visualization_never_zero:
  assumes "shape0 f = shape0 c \<and> shape1 f = shape1 c"
    and "\<forall>i < shape0 c. \<forall>j < shape1 c. 0 \<le> cells c i j \<and> 0 \<le> cells f i j"
  shows "\<exists>r. generate_visualization_map c f b = Inr r
           \<and> shape0 (visualization r) = shape0 c \<and> shape1 (visualization r) = shape1 c
           \<and> (\<forall>i < shape0 c. \<forall>j < shape1 c.
                 (cells c i j = 0 \<and> cells f i j = 0 \<longrightarrow> cells (visualization r) i j = 3)
                 \<and> cells (visualization r) i j \<in> {1, 2, 3})"
proof -
  obtain r where r: "generate_visualization_map c f b = Inr r"
    using visualization_returns assms(1) by blast
  have "(cells c i j = 0 \<and> cells f i j = 0 \<longrightarrow> cells (visualization r) i j = 3)
        \<and> cells (visualization r) i j \<in> {1, 2, 3}" if "i < shape0 c" "j < shape1 c" for i j
  proof -
    have "0 \<le> cells c i j" "0 \<le> cells f i j"
      using assms(2) that by auto
    then show ?thesis
      using visualization_cell [OF _ _ that r] assms(1) by (auto simp: abs_if)
  qed
  then show ?thesis
    using r visualization_shape [OF r] by blast
qed

theorem visualization_never_zero_witness:
  "map_sum id (\<lambda>r. map (\<lambda>i. map (cells (visualization r) i) [0, 1]) [0])
     (generate_visualization_map
        \<lparr>shape0 = 1, shape1 = 2, cells = (\<lambda>i j. if j = 0 then 0 else 4)\<rparr>
        (np_full 1 2 0) (0, 0, 1, 1))
   = Inr [[3, 1]]"
proof -
  let ?c = "\<lparr>shape0 = 1, shape1 = 2, cells = (\<lambda>i j. if j = 0 then 0 else 4 :: real)\<rparr>"
  have "shape0 (np_full 1 2 0) = shape0 ?c \<and> shape1 (np_full 1 2 0) = shape1 ?c"
    by (simp add: np_full_def)
  moreover have "\<forall>i < shape0 ?c. \<forall>j < shape1 ?c. 0 \<le> cells ?c i j \<and> 0 \<le> cells (np_full 1 2 0) i j"
    by (simp add: np_full_def)
  ultimately have "\<exists>r. generate_visualization_map ?c (np_full 1 2 0) (0, 0, 1, 1) = Inr r"
    using visualization_never_zero [of "np_full 1 2 0" ?c "(0, 0, 1, 1)"] by blast
  then show ?thesis
    by (auto simp: generate_visualization_map_def masked_assign_def zeros_like_def np_full_def Let_def)
qed

subsection \<open>Identical grades give zero volumes\<close>

lemma for_each_unchanged:
  "(\<And>x. x \<in> set xs \<Longrightarrow> body x s = Inr s) \<Longrightarrow> for_each body xs s = Inr s"
  by (induction xs) auto

lemma np_sum_zeros_like: "np_sum (zeros_like a) = 0"
  by (simp add: np_sum_def zeros_like_def np_full_def)

lemma getitem_nat:
  "i < shape0 a \<Longrightarrow> j < shape1 a \<Longrightarrow> getitem a (int i) (int j) = Inr (cells a i j)"
  by (simp add: getitem_def wrap_index_def)

lemma volume_cell_agree_total:
  assumes "i < shape0 dem" "j < shape1 dem"
    and "getitem proposed (int i) (int j) = Inr (cells dem i j)"
    and "\<forall>g. boundary = Some g \<longrightarrow> (\<forall>pt. \<exists>b. contains lib g pt = Inr b)"
  shows "volume_cell lib res dem proposed bounds boundary i j maps = Inr maps"
proof (cases bounds; cases maps)
  fix minx miny maxx maxy c f
  assume b: "bounds = (minx, miny, maxx, maxy)" and m: "maps = (c, f)"
  show ?thesis
  proof (cases boundary)
    case None
    then show ?thesis
      using assms b m by (simp add: volume_cell_def getitem_nat)
  next
    case (Some g)
    obtain inside where "contains lib g (minx + real j * (res * FEET_TO_DEGREES),
                                        miny + real i * (res * FEET_TO_DEGREES)) = Inr inside"
      using assms(4) Some by blast
    then show ?thesis
      using assms(1-3) b m Some by (simp add: volume_cell_def getitem_nat Let_def)
  qed
qed

lemma baseline_only:
  "create_proposed_dem res
     \<lparr>default_elevation = None, baseline_dem = Some dem, grade_assets = [], grade_roads = []\<rparr>
     shape bounds = Inr dem"
  by (simp add: create_proposed_dem_def truthy_def get_or_def Let_def)

text \<open>
  Claim C7. When the proposed grid built from the grade instructions holds, at every cell of
  the DEM, the DEM's own elevation (and the boundary's containment test, if a boundary is
  given, does not raise), \<open>calculate_volumes\<close> returns, and its cut, fill and net volumes are
  0 in cubic feet and in cubic yards. The instructions that give only the DEM as baseline
  build such a grid (lemma \<open>baseline_only\<close>).
\<close>

theorem identical_grades_zero_volumes:
  assumes "create_proposed_dem res grades (shape0 dem, shape1 dem) bounds = Inr proposed"
    and "\<forall>i < shape0 dem. \<forall>j < shape1 dem. getitem proposed (int i) (int j) = Inr (cells dem i j)"
    and "\<forall>g. boundary = Some g \<longrightarrow> (\<forall>pt. \<exists>b. contains lib g pt = Inr b)"
  shows "\<exists>v. calculate_volumes lib res dem grades bounds boundary = Inr v
           \<and> cut_volume_ft3 v = 0 \<and> fill_volume_ft3 v = 0 \<and> net_volume_ft3 v = 0
           \<and> cut_volume_yd3 v = 0 \<and> fill_volume_yd3 v = 0 \<and> net_volume_yd3 v = 0"
proof -
  let ?z = "(zeros_like dem, zeros_like dem)"
  have inner: "for_each (volume_cell lib res dem proposed bounds boundary i) [0..<shape1 dem] ?z = Inr ?z"
    if "i < shape0 dem" for i
    using that assms(2,3) by (intro for_each_unchanged volume_cell_agree_total) auto
  have outer: "for_each (\<lambda>i. for_each (volume_cell lib res dem proposed bounds boundary i) [0..<shape1 dem])
                 [0..<shape0 dem] ?z = Inr ?z"
    by (rule for_each_unchanged) (simp add: inner)
  show ?thesis
    by (simp add: calculate_volumes_def assms(1) outer Let_def np_sum_zeros_like)
qed

theorem identical_grades_zero_volumes_witness:
  "map_sum id (\<lambda>v. [cut_volume_ft3 v, fill_volume_ft3 v, net_volume_ft3 v,
                        cut_volume_yd3 v, fill_volume_yd3 v, net_volume_yd3 v])
     (calculate_volumes rect_geometry 10
        \<lparr>shape0 = 1, shape1 = 2, cells = (\<lambda>i j. if j = 0 then 100 else 90)\<rparr>
        \<lparr>default_elevation = None,
           baseline_dem = Some \<lparr>shape0 = 1, shape1 = 2, cells = (\<lambda>i j. if j = 0 then 100 else 90)\<rparr>,
           grade_assets = [], grade_roads = []\<rparr>
        (0, 0, 1, 1) None)
   = Inr [0, 0, 0, 0, 0, 0]"
proof -
  let ?dem = "\<lparr>shape0 = 1, shape1 = 2, cells = (\<lambda>i j. if j = 0 then 100 else 90 :: real)\<rparr>"
  let ?grades = "\<lparr>default_elevation = None, baseline_dem = Some ?dem,
                   grade_assets = [], grade_roads = []\<rparr>"
  have "create_proposed_dem 10 ?grades (shape0 ?dem, shape1 ?dem) (0, 0, 1, 1) = Inr ?dem"
    by (rule baseline_only)
  moreover have "\<forall>i < shape0 ?dem. \<forall>j < shape1 ?dem. getitem ?dem (int i) (int j) = Inr (cells ?dem i j)"
    using getitem_nat [of _ ?dem] by blast
  moreover have "\<forall>g. (None :: rects option) = Some g \<longrightarrow> (\<forall>pt. \<exists>b. contains rect_geometry g pt = Inr b)"
    by simp
  ultimately show ?thesis
    using identical_grades_zero_volumes [of 10 ?grades ?dem "(0, 0, 1, 1)" ?dem None rect_geometry]
    by auto
qed

subsection \<open>Candidate locations are contained and bounded\<close>

lemma scan_column_sound:
  assumes "scan_column accept step maxy x y candidates = Some exit"
    and "length candidates < MAX_CANDIDATES" and "\<forall>p \<in> set candidates. accept p"
  shows "case exit of
           Returned found \<Rightarrow> length found \<le> MAX_CANDIDATES \<and> (\<forall>p \<in> set found. accept p)
         | Fell_through found \<Rightarrow> length found < MAX_CANDIDATES \<and> (\<forall>p \<in> set found. accept p)"
proof -
  let ?P = "\<lambda>accept (step :: real) (maxy :: real) (x :: real) (y :: real) candidates exit.
      length candidates < MAX_CANDIDATES \<longrightarrow> (\<forall>p \<in> set candidates. accept p) \<longrightarrow>
      (case exit of
         Returned found \<Rightarrow> length found \<le> MAX_CANDIDATES \<and> (\<forall>p \<in> set found. accept p)
       | Fell_through found \<Rightarrow> length found < MAX_CANDIDATES \<and> (\<forall>p \<in> set found. accept p))"
  note rule = scan_column.raw_induct [where P = ?P
      and xa = "(((((accept, step), maxy), x), y), candidates)" and ya = exit, unfolded prod.case]
  have "?P accept step maxy x y candidates exit"
  proof (rule rule)
    show "scan_column accept step maxy x y candidates = Some exit" by (rule assms(1))
  next
    fix f accept' and step' maxy' x' y' :: real and cs :: "point list" and r
    assume ih: "\<And>a s m u v c r. f a s m u v c = Some r \<Longrightarrow> ?P a s m u v c r"
      and body: "(if y' \<le> maxy'
            then if accept' (x', y')
                 then if MAX_CANDIDATES \<le> length (cs @ [(x', y')])
                      then Some (Returned (cs @ [(x', y')]))
                      else f accept' step' maxy' x' (y' + step') (cs @ [(x', y')])
                 else f accept' step' maxy' x' (y' + step') cs
            else Some (Fell_through cs)) = Some r"
    show "?P accept' step' maxy' x' y' cs r"
    proof (intro impI)
      assume len: "length cs < MAX_CANDIDATES" and acc: "\<forall>p \<in> set cs. accept' p"
      consider (out) "\<not> y' \<le> maxy'"
        | (skip) "y' \<le> maxy'" "\<not> accept' (x', y')"
        | (full) "y' \<le> maxy'" "accept' (x', y')" "MAX_CANDIDATES \<le> length (cs @ [(x', y')])"
        | (more) "y' \<le> maxy'" "accept' (x', y')" "\<not> MAX_CANDIDATES \<le> length (cs @ [(x', y')])"
        by blast
      then show "case r of
           Returned found \<Rightarrow> length found \<le> MAX_CANDIDATES \<and> (\<forall>p \<in> set found. accept' p)
         | Fell_through found \<Rightarrow> length found < MAX_CANDIDATES \<and> (\<forall>p \<in> set found. accept' p)"
      proof cases
        case out
        then have "r = Fell_through cs" using body by simp
        then show ?thesis using len acc by simp
      next
        case skip
        then have "f accept' step' maxy' x' (y' + step') cs = Some r" using body by simp
        from ih [OF this] show ?thesis using len acc by simp
      next
        case full
        then have "r = Returned (cs @ [(x', y')])" using body by simp
        then show ?thesis using len acc full by auto
      next
        case more
        then have "f accept' step' maxy' x' (y' + step') (cs @ [(x', y')]) = Some r"
          using body by simp
        from ih [OF this] show ?thesis using len acc more by auto
      qed
    qed
  qed
  then show ?thesis using assms(2,3) by simp
qed

lemma scan_grid_sound:
  assumes "scan_grid accept step miny maxx maxy x candidates = Some found"
    and "length candidates < MAX_CANDIDATES" and "\<forall>p \<in> set candidates. accept p"
  shows "length found \<le> MAX_CANDIDATES \<and> (\<forall>p \<in> set found. accept p)"
proof -
  let ?P = "\<lambda>accept (step :: real) (miny :: real) (maxx :: real) (maxy :: real) (x :: real)
      candidates found.
      length candidates < MAX_CANDIDATES \<longrightarrow> (\<forall>p \<in> set candidates. accept p) \<longrightarrow>
      length found \<le> MAX_CANDIDATES \<and> (\<forall>p \<in> set found. accept p)"
  note rule = scan_grid.raw_induct [where P = ?P
      and xa = "((((((accept, step), miny), maxx), maxy), x), candidates)" and y = found,
      unfolded prod.case]
  have "?P accept step miny maxx maxy x candidates found"
  proof (rule rule)
    show "scan_grid accept step miny maxx maxy x candidates = Some found" by (rule assms(1))
  next
    fix f accept' and step' miny' maxx' maxy' x' :: real and cs r :: "point list"
    assume ih: "\<And>a s m n k u c r. f a s m n k u c = Some r \<Longrightarrow> ?P a s m n k u c r"
      and body: "(if x' \<le> maxx'
            then Option.bind (scan_column accept' step' maxy' x' miny' cs)
                  (\<lambda>exit. case exit of
                      Returned found \<Rightarrow> Some found
                    | Fell_through found \<Rightarrow> f accept' step' miny' maxx' maxy' (x' + step') found)
            else Some cs) = Some r"
    show "?P accept' step' miny' maxx' maxy' x' cs r"
    proof (intro impI)
      assume len: "length cs < MAX_CANDIDATES" and acc: "\<forall>p \<in> set cs. accept' p"
      show "length r \<le> MAX_CANDIDATES \<and> (\<forall>p \<in> set r. accept' p)"
      proof (cases "x' \<le> maxx'")
        case False
        then have "r = cs" using body by simp
        then show ?thesis using len acc by simp
      next
        case True
        then obtain exit where col: "scan_column accept' step' maxy' x' miny' cs = Some exit"
          and rest: "(case exit of
                      Returned found \<Rightarrow> Some found
                    | Fell_through found \<Rightarrow> f accept' step' miny' maxx' maxy' (x' + step') found)
                     = Some r"
          using body by (auto simp: bind_eq_Some_conv)
        note col_ok = scan_column_sound [OF col len acc]
        show ?thesis
        proof (cases exit)
          case (Returned c)
          then show ?thesis using rest col_ok by simp
        next
          case (Fell_through c)
          then have "f accept' step' miny' maxx' maxy' (x' + step') c = Some r"
            using rest by simp
          from ih [OF this] show ?thesis using col_ok Fell_through by simp
        qed
      qed
    qed
  qed
  then show ?thesis using assms(2,3) by simp
qed

lemma accepts_iff:
  "accepts lib b u p \<longleftrightarrow>
     contains lib b p = Inr True
     \<and> (case u of None \<Rightarrow> True | Some e \<Rightarrow> contains lib e p = Inr False)"
proof (cases "contains lib b p")
  case (Inl e)
  then show ?thesis by (simp add: accepts_def)
next
  case (Inr inside)
  show ?thesis
  proof (cases u)
    case None
    then show ?thesis using Inr by (simp add: accepts_def)
  next
    case (Some e)
    then show ?thesis using Inr by (cases "contains lib e p") (auto simp: accepts_def)
  qed
qed

text \<open>
  Claim C2. Whenever \<open>generate_candidate_locations\<close> returns a list, the list has at most
  10,000 entries, and for each of its points the containment test of the buffered boundary
  (with its fallbacks) answers true and, if there is a union of buffered exclusion zones, the
  containment test of that union answers false. The inner loop returns at once when the
  accepted point is the 10,000th.
\<close>

theorem candidates_contained_and_bounded:
  assumes "generate_candidate_locations lib property_boundary exclusion_zones grid_resolution
             buffer_boundary buffer_exclusion = Some (Inr candidates)"
  shows "length candidates \<le> 10000
     \<and> (\<forall>p \<in> set candidates.
          contains lib (buffered_boundary_of lib property_boundary (buffer_boundary * FEET_TO_DEGREES)) p
            = Inr True
          \<and> (case exclusion_union_of lib exclusion_zones (buffer_exclusion * FEET_TO_DEGREES) of
                None \<Rightarrow> True
              | Some u \<Rightarrow> contains lib u p = Inr False))
     \<and> (length found = 9999 \<and> y \<le> maxy \<and> accept (x, y) \<longrightarrow>
          scan_column accept step maxy x y found = Some (Returned (found @ [(x, y)])))"
proof -
  let ?b = "buffered_boundary_of lib property_boundary (buffer_boundary * FEET_TO_DEGREES)"
  let ?u = "exclusion_union_of lib exclusion_zones (buffer_exclusion * FEET_TO_DEGREES)"
  obtain step miny maxx maxy' minx where
    "scan_grid (accepts lib ?b ?u) step miny maxx maxy' minx [] = Some candidates"
    using assms
    by (auto simp: generate_candidate_locations_def Let_def split: sum.splits if_splits)
  then have "length candidates \<le> MAX_CANDIDATES \<and> (\<forall>p \<in> set candidates. accepts lib ?b ?u p)"
    by (rule scan_grid_sound) (simp_all add: MAX_CANDIDATES_def)
  moreover have "length found = 9999 \<and> y \<le> maxy \<and> accept (x, y) \<longrightarrow>
          scan_column accept step' maxy x y found = Some (Returned (found @ [(x, y)]))" for step'
    by (subst scan_column.simps) (simp add: MAX_CANDIDATES_def)
  ultimately show ?thesis
    by (simp add: MAX_CANDIDATES_def accepts_iff)
qed

theorem candidates_contained_and_bounded_witness:
  "generate_candidate_locations rect_geometry [(0, 0, 4, 4)] [[(0.5, 0.5, 1.5, 1.5)]] 364000 0 0
     = Some (Inr [(1, 2), (1, 3), (2, 1), (2, 2), (2, 3), (3, 1), (3, 2), (3, 3)])
   \<and> length [(1, 2), (1, 3), (2, 1), (2, 2), (2, 3), (3, 1), (3, 2), (3 :: real, 3 :: real)] \<le> 10000"
proof -
  have run: "generate_candidate_locations rect_geometry [(0, 0, 4, 4)] [[(0.5, 0.5, 1.5, 1.5)]] 364000 0 0
     = Some (Inr [(1, 2), (1, 3), (2, 1), (2, 2), (2, 3), (3, 1), (3, 2), (3, 3)])"
    by (simp add: generate_candidate_locations_def buffered_boundary_of_def exclusion_union_of_def
          rect_geometry_def rect_grow_def rect_empty_def rect_contains_def rect_hull_def
          FEET_TO_DEGREES_def py_int_def MAX_CANDIDATES_def accepts_def Let_def
          scan_grid.simps scan_column.simps)
  from candidates_contained_and_bounded [OF run] show ?thesis
    using run by simp
qed

subsection \<open>The A* search returns\<close>

subsubsection \<open>Order facts on scores\<close>

lemma xless_irrefl: "\<not> xless a a"
  by (cases a) auto

lemma xle_trans: "\<not> xless b a \<Longrightarrow> \<not> xless c b \<Longrightarrow> \<not> xless c a"
  by (cases a; cases b; cases c) auto

lemma xless_xle_trans: "xless a b \<Longrightarrow> \<not> xless c b \<Longrightarrow> \<not> xless c a"
  by (cases a; cases b; cases c) auto

lemma xless_xle_less: "xless a b \<Longrightarrow> \<not> xless c b \<Longrightarrow> xless a c"
  by (cases a; cases b; cases c) auto

lemma xadd_not_less:
  assumes "step_cost = PInf \<or> (\<exists>r \<ge> 0. step_cost = Fin r)"
  shows "\<not> xless (xadd g step_cost) g"
  using assms by (cases g; cases step_cost) auto

subsubsection \<open>The step cost\<close>

lemma in_exclusion_zone_total:
  assumes "\<forall>g p. \<exists>b. contains lib g p = Inr b"
  shows "\<exists>b. in_exclusion_zone lib zones p = Inr b"
proof (induction zones)
  case Nil
  then show ?case by auto
next
  case (Cons z zones)
  obtain b where "contains lib z p = Inr b" using assms by blast
  then show ?case using Cons by auto
qed

lemma get_elevation_total:
  assumes "res \<noteq> 0"
  shows "\<exists>v. get_elevation_at_point p d b res = Inr v"
proof -
  obtain minx miny maxx maxy where b: "b = (minx, miny, maxx, maxy)" by (cases b)
  obtain x y where p: "p = (x, y)" by (cases p)
  show ?thesis
    using assms by (auto simp: get_elevation_at_point_def b p Let_def getitem_in_range)
qed

lemma heuristic_nonneg: "0 \<le> heuristic a b"
  by (simp add: heuristic_def)

lemma cost_total:
  assumes total: "\<forall>g p. \<exists>b. contains (env_lib env) g p = Inr b"
    and res: "env_resolution env \<noteq> 0"
  shows "\<exists>c. cost env current next_point = Inr c \<and> (c = PInf \<or> (\<exists>r \<ge> 0. c = Fin r))"
proof -
  obtain ex where ex: "in_exclusion_zone (env_lib env) (env_zones env) next_point = Inr ex"
    using in_exclusion_zone_total [OF total] by blast
  show ?thesis
  proof (cases ex)
    case True
    then show ?thesis using ex by (simp add: cost_def)
  next
    case False
    note d = heuristic_nonneg [of current next_point]
    show ?thesis
    proof (cases "env_dem env")
      case None
      then show ?thesis using ex False d by (simp add: cost_def)
    next
      case (Some dm)
      show ?thesis
      proof (cases "env_bounds env")
        case None
        then show ?thesis using ex False d Some by (simp add: cost_def)
      next
        case (Some bb)
        obtain e1 where e1: "get_elevation_at_point current dm bb (env_resolution env) = Inr e1"
          using get_elevation_total [OF res] by blast
        obtain e2 where e2: "get_elevation_at_point next_point dm bb (env_resolution env) = Inr e2"
          using get_elevation_total [OF res] by blast
        show ?thesis
          using ex False d Some \<open>env_dem env = Some dm\<close> e1 e2
          by (auto simp: cost_def Let_def)
      qed
    qed
  qed
qed

subsubsection \<open>Walks along the back-pointers\<close>

lemma walk_back_ends:
  "walk_ends came n \<Longrightarrow> \<exists>p. walk_back came n path = Some p"
proof (induction arbitrary: path rule: walk_ends.induct)
  case (at_root n)
  then show ?case by (subst walk_back.simps) simp
next
  case (via n c)
  then show ?case by (subst walk_back.simps) simp
qed

lemma walk_ends_avoiding:
  assumes "walk_ends came c" and "\<not> (\<lambda>a b. came a = Some b)\<^sup>*\<^sup>* c n"
  shows "walk_ends (came(n \<mapsto> m)) c"
  using assms
proof (induction rule: walk_ends.induct)
  case (at_root k)
  then have "k \<noteq> n" by auto
  then have "(came(n \<mapsto> m)) k = None" using at_root by simp
  then show ?case by (rule walk_ends.at_root)
next
  case (via k d)
  have "k \<noteq> n" using via.prems by auto
  have "\<not> (\<lambda>a b. came a = Some b)\<^sup>*\<^sup>* d n"
    using via.prems via.hyps(1) by (meson converse_rtranclp_into_rtranclp)
  then have "walk_ends (came(n \<mapsto> m)) d" by (rule via.IH)
  moreover have "(came(n \<mapsto> m)) k = Some d" using \<open>k \<noteq> n\<close> via.hyps(1) by simp
  ultimately show ?case by (rule walk_ends.via [rotated])
qed

lemma walk_ends_update:
  assumes all: "\<forall>k. walk_ends came k" and "\<not> (\<lambda>a b. came a = Some b)\<^sup>*\<^sup>* m n"
  shows "walk_ends (came(n \<mapsto> m)) k"
proof -
  have "walk_ends came m" using all by blast
  then have m: "walk_ends (came(n \<mapsto> m)) m"
    using assms(2) by (rule walk_ends_avoiding)
  have "(came(n \<mapsto> m)) n = Some m" by simp
  then have n: "walk_ends (came(n \<mapsto> m)) n"
    using m by (rule walk_ends.via)
  have "walk_ends came k" using all by blast
  then show ?thesis
  proof (induction rule: walk_ends.induct)
    case (at_root j)
    show ?case
    proof (cases "j = n")
      case True
      then show ?thesis using n by blast
    next
      case False
      then have "(came(n \<mapsto> m)) j = None" using at_root by simp
      then show ?thesis by (rule walk_ends.at_root)
    qed
  next
    case (via j d)
    show ?case
    proof (cases "j = n")
      case True
      then show ?thesis using n by blast
    next
      case False
      then have "(came(n \<mapsto> m)) j = Some d" using via.hyps(1) by simp
      then show ?thesis using via.IH by (rule walk_ends.via)
    qed
  qed
qed

lemma scores_along_walk:
  assumes "scores_ordered st" and "(\<lambda>a b. came_from st a = Some b)\<^sup>*\<^sup>* a b"
    and "g_score st a = Some ga"
  shows "\<exists>gb. g_score st b = Some gb \<and> \<not> xless ga gb"
  using assms(2,3)
proof (induction rule: rtranclp_induct)
  case base
  then show ?case by (simp add: xless_irrefl)
next
  case (step b c)
  then obtain gb where gb: "g_score st b = Some gb" "\<not> xless ga gb" by blast
  obtain gb' gc where "g_score st b = Some gb'" "g_score st c = Some gc" "\<not> xless gb' gc"
    using assms(1) step.hyps(2) unfolding scores_ordered_def by blast
  then show ?case using gb xle_trans [where a = gc and b = gb and c = ga] by auto
qed

subsubsection \<open>One neighbour\<close>

lemma visit_neighbor_inv:
  assumes total: "\<forall>g p. \<exists>b. contains (env_lib env) g p = Inr b"
    and res: "dx \<noteq> 0 \<or> dy \<noteq> 0 \<longrightarrow> env_resolution env \<noteq> 0"
    and inv: "search_inv st" and cur: "current \<in> dom (g_score st)"
  shows "\<exists>st'. visit_neighbor env current dx dy st = Inr st'
           \<and> search_inv st' \<and> current \<in> dom (g_score st')"
proof (cases "dx = 0 \<and> dy = 0")
  case True
  then show ?thesis using inv cur by (simp add: visit_neighbor_def)
next
  case False
  let ?nb = "(fst current + dx, snd current + dy)"
  have ne: "?nb \<noteq> current"
    using False by (cases current) auto
  have res': "env_resolution env \<noteq> 0" using res False by blast
  obtain inside where inside: "contains (env_lib env) (env_boundary env) ?nb = Inr inside"
    using total by blast
  obtain gcur where gcur: "g_score st current = Some gcur" using cur by auto
  obtain c where c: "cost env current ?nb = Inr c" and cpos: "c = PInf \<or> (\<exists>r \<ge> 0. c = Fin r)"
    using cost_total [OF total res'] by blast
  let ?t = "xadd gcur c"
  let ?f = "xadd ?t (Fin (heuristic ?nb (env_goal env)))"
  let ?better = "(case g_score st ?nb of None \<Rightarrow> True | Some g \<Rightarrow> xless ?t g)"
  let ?st' = "\<lparr>open_set = heappush (open_set st) (?f, ?nb),
               came_from = (came_from st)(?nb \<mapsto> current),
               g_score = (g_score st)(?nb \<mapsto> ?t),
               f_score = (f_score st)(?nb \<mapsto> ?f)\<rparr>"
  have eq: "visit_neighbor env current dx dy st =
              (if inside \<and> ?better then Inr ?st' else Inr st)"
    using False inside gcur c by (auto simp: visit_neighbor_def Let_def)
  show ?thesis
  proof (cases "inside \<and> ?better")
    case False
    then show ?thesis using eq inv cur by auto
  next
    case True
    then have better: ?better by simp
    have tge: "\<not> xless ?t gcur" using cpos by (rule xadd_not_less)
    have a: "\<forall>item \<in> set (open_set ?st'). snd item \<in> dom (g_score ?st')"
      using inv by (auto simp: search_inv_def heappush_def)
    have ord: "scores_ordered st" using inv by (simp add: search_inv_def)
    have b: "scores_ordered ?st'"
      unfolding scores_ordered_def
    proof (intro allI impI)
      fix n k
      assume e: "came_from ?st' n = Some k"
      show "\<exists>gn gc. g_score ?st' n = Some gn \<and> g_score ?st' k = Some gc \<and> \<not> xless gn gc"
      proof (cases "n = ?nb")
        case True
        then have "k = current" using e by simp
        then show ?thesis using True gcur ne tge by simp
      next
        case False
        then have "came_from st n = Some k" using e by simp
        then obtain gn gk where g: "g_score st n = Some gn" "g_score st k = Some gk" "\<not> xless gn gk"
          using ord unfolding scores_ordered_def by blast
        show ?thesis
        proof (cases "k = ?nb")
          case True
          then have "xless ?t gk" using better g(2) by simp
          then have "\<not> xless gn ?t" using g(3) by (rule xless_xle_trans)
          then show ?thesis using True False g(1) by simp
        next
          case k: False
          then show ?thesis using False g by simp
        qed
      qed
    qed
    have no_way: "\<not> (\<lambda>a b. came_from st a = Some b)\<^sup>*\<^sup>* current ?nb"
    proof
      assume "(\<lambda>a b. came_from st a = Some b)\<^sup>*\<^sup>* current ?nb"
      from scores_along_walk [OF ord this gcur]
      obtain gnb where gnb: "g_score st ?nb = Some gnb" "\<not> xless gcur gnb" by blast
      then have "xless ?t gnb" using better by simp
      then have "xless ?t gcur" using gnb(2) by (rule xless_xle_less)
      then show False using tge by simp
    qed
    have "\<forall>k. walk_ends (came_from st) k" using inv by (simp add: search_inv_def)
    then have c': "\<forall>k. walk_ends (came_from ?st') k"
      using walk_ends_update [OF _ no_way] by simp
    have "search_inv ?st'"
      unfolding search_inv_def using a b c' by blast
    moreover have "current \<in> dom (g_score ?st')" using cur by simp
    ultimately show ?thesis using eq True by simp
  qed
qed

lemma for_each_preserves:
  assumes "\<And>x s. x \<in> set xs \<Longrightarrow> I s \<Longrightarrow> \<exists>s'. body x s = Inr s' \<and> I s'" and "I s"
  shows "\<exists>s'. for_each body xs s = Inr s' \<and> I s'"
  using assms
proof (induction xs arbitrary: s)
  case Nil
  then show ?case by simp
next
  case (Cons x xs)
  obtain s1 where s1: "body x s = Inr s1" "I s1"
    using Cons.prems(1) [of x s] Cons.prems(2) by auto
  have "\<exists>s'. for_each body xs s1 = Inr s' \<and> I s'"
    using Cons.IH [of s1] Cons.prems(1) s1(2) by auto
  then show ?case using s1(1) by simp
qed

lemma explore_neighbors_inv:
  assumes total: "\<forall>g p. \<exists>b. contains (env_lib env) g p = Inr b"
    and res: "env_grid_size env \<noteq> 0 \<longrightarrow> env_resolution env \<noteq> 0"
    and inv: "search_inv st" and cur: "current \<in> dom (g_score st)"
  shows "\<exists>st'. explore_neighbors env current st = Inr st' \<and> search_inv st'"
proof -
  let ?I = "\<lambda>s. search_inv s \<and> current \<in> dom (g_score s)"
  let ?offsets = "[- env_grid_size env, 0, env_grid_size env]"
  have inner: "\<exists>s'. for_each (\<lambda>dy. visit_neighbor env current dx dy) ?offsets s = Inr s' \<and> ?I s'"
    if "dx \<in> set ?offsets" "?I s" for dx s
  proof (rule for_each_preserves [where I = ?I])
    show "?I s" by (rule that(2))
  next
    fix dy s0
    assume dy: "dy \<in> set ?offsets" and s0: "?I s0"
    have "dx \<noteq> 0 \<or> dy \<noteq> 0 \<longrightarrow> env_resolution env \<noteq> 0"
      using res that(1) dy by auto
    then show "\<exists>s'. visit_neighbor env current dx dy s0 = Inr s' \<and> ?I s'"
      using visit_neighbor_inv [OF total _, of dx dy s0 current] s0 by blast
  qed
  have "\<exists>s'. for_each (\<lambda>dx. for_each (\<lambda>dy. visit_neighbor env current dx dy) ?offsets) ?offsets st
               = Inr s' \<and> ?I s'"
    by (rule for_each_preserves [where I = ?I]) (use inner inv cur in auto)
  then show ?thesis by (auto simp: explore_neighbors_def)
qed

subsubsection \<open>The open set\<close>

lemma least_item_member: "least_item m xs \<in> set (m # xs)"
  by (induction xs arbitrary: m) auto

lemma heappop_member:
  assumes "h \<noteq> []" and "heappop h = (item, rest)"
  shows "item \<in> set h \<and> set rest \<subseteq> set h"
proof -
  obtain x xs where h: "h = x # xs" using assms(1) by (cases h) auto
  have "least_item x xs \<in> set (x # xs)" by (rule least_item_member)
  moreover have "set (remove1 (least_item x xs) h) \<subseteq> set h" by (rule set_remove1_subset)
  ultimately show ?thesis using assms(2) h by (auto simp: heappop_def Let_def)
qed

subsubsection \<open>The main loop\<close>

lemma search_inv_rest:
  assumes "search_inv st" "open_set st \<noteq> []" "heappop (open_set st) = ((cf, cur), rest)"
  shows "search_inv (st\<lparr>open_set := rest\<rparr>) \<and> cur \<in> dom (g_score st)"
proof -
  have m: "(cf, cur) \<in> set (open_set st) \<and> set rest \<subseteq> set (open_set st)"
    using heappop_member [OF assms(2,3)] .
  then have "cur \<in> dom (g_score st)"
    using assms(1) unfolding search_inv_def by fastforce
  moreover have "search_inv (st\<lparr>open_set := rest\<rparr>)"
    using assms(1) m unfolding search_inv_def scores_ordered_def by auto
  ultimately show ?thesis by simp
qed

lemma a_star_loop_returns:
  "\<forall>g p. \<exists>b. contains (env_lib env) g p = Inr b \<Longrightarrow>
   env_grid_size env \<noteq> 0 \<longrightarrow> env_resolution env \<noteq> 0 \<Longrightarrow>
   search_inv st \<Longrightarrow> iterations \<le> max_iterations \<Longrightarrow>
   (\<exists>r. returned (a_star_loop env iterations visited st) = Some (Inr r)
        \<and> ((\<forall>v \<in> visited_nodes (a_star_loop env iterations visited st).
               \<not> heuristic v (env_goal env) < max (env_grid_size env * 2) 0.0001) \<longrightarrow> r = None))
   \<and> iterations_run (a_star_loop env iterations visited st) \<le> max_iterations"
proof (induction env iterations visited st rule: a_star_loop.induct)
  case (1 env iterations visited st)
  note total = "1.prems"(1) and res = "1.prems"(2) and inv = "1.prems"(3) and bound = "1.prems"(4)
  show ?case
  proof (cases "open_set st \<noteq> [] \<and> iterations < max_iterations")
    case False
    then have "a_star_loop env iterations visited st =
        \<lparr>returned = Some (Inr None), iterations_run = iterations, visited_nodes = visited\<rparr>"
      by (subst a_star_loop.simps) auto
    then show ?thesis using bound by simp
  next
    case True
    obtain cf cur rest where pop: "heappop (open_set st) = ((cf, cur), rest)"
      by (metis surj_pair)
    have inv_rest: "search_inv (st\<lparr>open_set := rest\<rparr>)" and cur: "cur \<in> dom (g_score st)"
      using search_inv_rest [OF inv _ pop] True by auto
    have next_bound: "iterations + 1 \<le> max_iterations" using True by simp
    show ?thesis
    proof (cases "cur \<in> visited")
      case seen: True
      have eq: "a_star_loop env iterations visited st =
                a_star_loop env (iterations + 1) visited (st\<lparr>open_set := rest\<rparr>)"
        using True pop seen by (subst a_star_loop.simps) simp
      show ?thesis
        unfolding eq
        using "1.IH"(1) [OF True pop [symmetric] refl seen total res inv_rest next_bound] .
    next
      case fresh: False
      show ?thesis
      proof (cases "heuristic cur (env_goal env) < max (env_grid_size env * 2) 0.0001")
        case near: True
        have "walk_ends (came_from st) cur"
          using inv unfolding search_inv_def by blast
        then obtain path where path: "walk_back (came_from st) cur [env_goal env] = Some path"
          using walk_back_ends by blast
        have eq: "a_star_loop env iterations visited st =
            \<lparr>returned = Some (Inr (Some (rev path))), iterations_run = iterations + 1,
             visited_nodes = insert cur visited\<rparr>"
          using True pop fresh near path by (subst a_star_loop.simps) (simp add: Let_def)
        show ?thesis
          unfolding eq using near next_bound by auto
      next
        case far: False
        obtain st' where st': "explore_neighbors env cur (st\<lparr>open_set := rest\<rparr>) = Inr st'"
          and inv': "search_inv st'"
          using explore_neighbors_inv [OF total res inv_rest, of cur] cur by auto
        have eq: "a_star_loop env iterations visited st =
                  a_star_loop env (iterations + 1) (insert cur visited) st'"
          using True pop fresh far st' by (subst a_star_loop.simps) (simp add: Let_def)
        show ?thesis
          unfolding eq
          using "1.IH"(2) [OF True pop [symmetric] refl fresh refl _ st' total res inv' next_bound] far
          by simp
      qed
    qed
  qed
qed

lemma snap_to_boundary_total:
  assumes "\<forall>g p. \<exists>b. contains lib g p = Inr b"
  shows "\<exists>q. snap_to_boundary lib boundary p = Inr q"
proof -
  obtain b where "contains lib boundary p = Inr b" using assms by blast
  then show ?thesis by (simp add: snap_to_boundary_def)
qed

lemma search_inv_initial:
  "search_inv \<lparr>open_set = [(Fin 0, s)], came_from = Map.empty, g_score = [s \<mapsto> Fin 0],
               f_score = [s \<mapsto> Fin h]\<rparr>"
  by (auto simp: search_inv_def scores_ordered_def intro: walk_ends.at_root)

text \<open>
  Claim C4. When the containment tests of the geometry library return (they are the library's,
  not the repository's), \<open>a_star_pathfinding\<close> returns on every input, and what it returns is
  a path or \<open>None\<close>, never an error: the main loop is a total function whose measure is the
  distance of \<open>iterations\<close> to the cap, it runs at most 10,000 iterations, and the walk along
  the back-pointers ends. When no visited node is within the tolerance of the (snapped) goal,
  the result is \<open>None\<close>.
\<close>

theorem a_star_terminates:
  assumes "\<forall>g p. \<exists>b. contains lib g p = Inr b"
  shows "\<exists>r. a_star_pathfinding lib start target boundary zones d b res = Some (Inr r)
     \<and> iterations_run (a_star_search lib start target boundary zones d b res) \<le> 10000
     \<and> ((\<forall>v \<in> visited_nodes (a_star_search lib start target boundary zones d b res).
            \<forall>goal'. snap_to_boundary lib boundary target = Inr goal' \<longrightarrow>
              \<not> heuristic v goal' < max (grid_size_of res * 2) 0.0001) \<longrightarrow> r = None)"
proof -
  obtain start' where s: "snap_to_boundary lib boundary start = Inr start'"
    using snap_to_boundary_total [OF assms] by blast
  obtain goal' where g: "snap_to_boundary lib boundary target = Inr goal'"
    using snap_to_boundary_total [OF assms] by blast
  let ?env = "\<lparr>env_lib = lib, env_boundary = boundary, env_zones = zones,
                 env_dem = d, env_bounds = b, env_resolution = res,
                 env_grid_size = grid_size_of res, env_goal = goal'\<rparr>"
  let ?st = "\<lparr>open_set = [(Fin 0, start')], came_from = Map.empty,
                g_score = [start' \<mapsto> Fin 0],
                f_score = [start' \<mapsto> Fin (heuristic start' goal')]\<rparr>"
  have eq: "a_star_search lib start target boundary zones d b res = a_star_loop ?env 0 {} ?st"
    by (simp add: a_star_search_def s g)
  have total: "\<forall>g p. \<exists>b. contains (env_lib ?env) g p = Inr b" using assms by simp
  have res: "env_grid_size ?env \<noteq> 0 \<longrightarrow> env_resolution ?env \<noteq> 0"
    by (auto simp: grid_size_of_def)
  have "0 \<le> max_iterations" by simp
  from a_star_loop_returns [OF total res search_inv_initial this, of "{}"]
  show ?thesis
    unfolding a_star_pathfinding_def eq using g by (simp add: max_iterations_def)
qed

theorem a_star_terminates_witness:
  "a_star_pathfinding rect_geometry (0.5, 0.5) (5.5, 0.5) [(0, 0, 1, 1), (5, 0, 6, 1)] [] None None 182000
     = Some (Inr None)
   \<and> iterations_run (a_star_search rect_geometry (0.5, 0.5) (5.5, 0.5) [(0, 0, 1, 1), (5, 0, 6, 1)] []
        None None 182000) = 1"
proof -
  have total: "\<forall>g p. \<exists>b. contains rect_geometry g p = Inr b"
    by (simp add: rect_geometry_def)
  have run: "a_star_search rect_geometry (0.5, 0.5) (5.5, 0.5) [(0, 0, 1, 1), (5, 0, 6, 1)] [] None None 182000
      = \<lparr>returned = Some (Inr None), iterations_run = 1, visited_nodes = {(0.5, 0.5)}\<rparr>"
    by (simp add: a_star_search_def snap_to_boundary_def rect_geometry_def rect_contains_def
          grid_size_of_def FEET_TO_DEGREES_def a_star_loop.simps heappop_def max_iterations_def
          heuristic_def explore_neighbors_def visit_neighbor_def Let_def)
  from a_star_terminates [OF total, of "(0.5, 0.5)" "(5.5, 0.5)" "[(0, 0, 1, 1), (5, 0, 6, 1)]" "[]" None None 182000]
  show ?thesis
    using run by (simp add: a_star_pathfinding_def)
qed

subsection \<open>Road types in the generated network\<close>

lemma heuristic_same_row: "heuristic (x1, y) (x2, y) = \<bar>x1 - x2\<bar>"
  by (simp add: heuristic_def)

lemma corridor_search_far:
  "a_star_pathfinding rect_geometry (1, 0.1) (3, 0.1) [(0, 0, 10, 0.3)] [] None None 182000
     = Some (Inr (Some [(1, 0.1), (1.5, 0.1), (2, 0.1), (3, 0.1)]))"
  by (simp add: a_star_pathfinding_def a_star_search_def snap_to_boundary_def rect_geometry_def
        rect_contains_def grid_size_of_def FEET_TO_DEGREES_def a_star_loop.simps heappop_def
        heappush_def max_iterations_def heuristic_same_row explore_neighbors_def
        visit_neighbor_def cost_def item_less_def point_less_def walk_back.simps Let_def)

lemma corridor_search_near:
  "a_star_pathfinding rect_geometry (1, 0.1) (2, 0.1) [(0, 0, 10, 0.3)] [] None None 182000
     = Some (Inr (Some [(1, 0.1), (2, 0.1)]))"
  by (simp add: a_star_pathfinding_def a_star_search_def snap_to_boundary_def rect_geometry_def
        rect_contains_def grid_size_of_def FEET_TO_DEGREES_def a_star_loop.simps heappop_def
        heappush_def max_iterations_def heuristic_same_row explore_neighbors_def
        visit_neighbor_def cost_def item_less_def point_less_def walk_back.simps Let_def)

lemma collect_road_segments_all_access:
  "collect_road_segments lib entry boundary zones d b res assets [] segments = Some (Inr found) \<Longrightarrow>
   list_all (\<lambda>s. segment_type s = ''access'' \<and> segment_width s = 20) segments \<Longrightarrow>
   list_all (\<lambda>s. segment_type s = ''access'' \<and> segment_width s = 20) found"
proof (induction assets arbitrary: segments)
  case Nil
  then show ?case by simp
next
  case (Cons asset rest)
  then show ?case
    by (auto simp: Let_def min_width_access_def split: option.splits sum.splits if_splits)
qed

lemma optimize_road_network_subset: "set (optimize_road_network segments seen) \<subseteq> set segments"
  by (induction segments seen rule: optimize_road_network.induct) auto

lemma build_roads_all_access:
  "list_all (\<lambda>s. segment_type s = ''access'' \<and> segment_width s = 20) segments \<Longrightarrow>
   list_all (\<lambda>r. road_type r = ''access'' \<and> width r = 20) network \<Longrightarrow>
   list_all (\<lambda>r. road_type r = ''access'' \<and> width r = 20) (build_roads draw segments network)"
  by (induction draw segments network rule: build_roads.induct) (auto split: option.splits)

lemma generate_road_network_all_access:
  assumes "generate_road_network lib draw entry assets boundary zones d b res = Some (Inr network)"
  shows "list_all (\<lambda>r. road_type r = ''access'' \<and> width r = 20) (roads network)"
proof -
  obtain segments where seg: "collect_road_segments lib entry boundary zones d b res assets [] [] = Some (Inr segments)"
    using assms by (auto simp: generate_road_network_def Let_def split: option.splits sum.splits)
  have "list_all (\<lambda>s. segment_type s = ''access'' \<and> segment_width s = 20) segments"
    using collect_road_segments_all_access [OF seg] by simp
  then have "list_all (\<lambda>s. segment_type s = ''access'' \<and> segment_width s = 20)
               (optimize_road_network segments [])"
    using optimize_road_network_subset [of segments "[]"] by (auto simp: list_all_iff)
  then have "list_all (\<lambda>r. road_type r = ''access'' \<and> width r = 20)
               (build_roads draw (optimize_road_network segments []) [])"
    by (rule build_roads_all_access) simp
  then show ?thesis
    using assms seg by (auto simp: generate_road_network_def Let_def split: if_splits)
qed

text \<open>
  Claim C1 does not hold of the code. The segment's type and width are chosen by the length
  of \<open>road_network\<close>, which is empty during the whole first loop, so every path found is
  recorded as an access road of width 20 (lemma \<open>collect_road_segments_all_access\<close>) and so
  is every road of the network. Here two assets lie in a corridor, the search finds a path to
  each, and the second one is recorded as \<open>access\<close> with width 20, not as \<open>secondary\<close> with
  width 12.
\<close>

theorem second_road_recorded_as_access:
  "collect_road_segments rect_geometry (1, 0.1) [(0, 0, 10, 0.3)] [] None None 182000
     [\<lparr>asset_x = 3, asset_y = 0.1, asset_id = Some ''asset-0''\<rparr>,
      \<lparr>asset_x = 2, asset_y = 0.1, asset_id = Some ''asset-1''\<rparr>] [] []
   = Some (Inr
      [\<lparr>segment_type = ''access'', segment_path = [(1, 0.1), (1.5, 0.1), (2, 0.1), (3, 0.1)],
         segment_asset_id = Some ''asset-0'', segment_width = 20\<rparr>,
       \<lparr>segment_type = ''access'', segment_path = [(1, 0.1), (2, 0.1)],
         segment_asset_id = Some ''asset-1'', segment_width = 20\<rparr>])"
  by (simp add: corridor_search_far corridor_search_near min_width_access_def)

end
